theory Spec2Isabelle
  imports Main "HOL-Library.AList" "HOL-Library.Sublist" "HOL-Library.Word"
begin

section \<open>JavaScript values\<close>

text \<open>
  The values a source document and a fetched document are built from. A plain object is
  the list of its own properties in insertion order; \<open>JDelete\<close> is the sentinel that
  \<^verbatim>\<open>Firestore.FieldValue.delete()\<close> returns. Numbers are the integers from \<open>- 2\<^sup>5\<^sup>3\<close>
  to \<open>2\<^sup>5\<^sup>3 - 1\<close>, a word of 54 bits read as a signed number: each of them is a
  JavaScript number, and one that a template literal prints as its decimal digits.
  Other numbers, \<^verbatim>\<open>Date\<close> instances, functions and symbols are not values of this
  type.
\<close>

datatype jsval =
    JUndefined
  | JNull
  | JBool bool
  | JNum "54 word"
  | JStr string
  | JArr "jsval list"
  | JObj "(string \<times> jsval) list"
  | JDelete

type_synonym jsobject = "(string \<times> jsval) list"

datatype js_error = Error string | TypeError string

fun message :: "js_error \<Rightarrow> string" where
  "message (Error m) = m"
| "message (TypeError m) = m"

definition then_do :: "js_error + 'a \<Rightarrow> ('a \<Rightarrow> js_error + 'b) \<Rightarrow> js_error + 'b" where
  "then_do r f = (case r of Inl e \<Rightarrow> Inl e | Inr x \<Rightarrow> f x)"

text \<open>\<^verbatim>\<open>typeof v === 'object'\<close>: true of \<^verbatim>\<open>null\<close>, arrays and every object.\<close>

fun typeof_object :: "jsval \<Rightarrow> bool" where
  "typeof_object JNull = True"
| "typeof_object (JArr xs) = True"
| "typeof_object (JObj ps) = True"
| "typeof_object JDelete = True"
| "typeof_object v = False"

text \<open>The condition of \<^verbatim>\<open>if (v)\<close>.\<close>

fun truthy :: "jsval \<Rightarrow> bool" where
  "truthy JUndefined = False"
| "truthy JNull = False"
| "truthy (JBool b) = b"
| "truthy (JNum n) = (n \<noteq> 0)"
| "truthy (JStr s) = (s \<noteq> [])"
| "truthy v = True"

text \<open>
  What \<^verbatim>\<open>Object.prototype.hasOwnProperty\<close> answers for an object and a key.
\<close>

definition hasOwnProperty :: "jsobject \<Rightarrow> string \<Rightarrow> bool" where
  "hasOwnProperty object key = (map_of object key \<noteq> None)"

text \<open>
  The call \<^verbatim>\<open>object.hasOwnProperty(key)\<close>. An own property of that name hides the
  method of the prototype, and as no value of the type is a function, calling it throws.
\<close>

definition call_hasOwnProperty :: "jsobject \<Rightarrow> string \<Rightarrow> js_error + bool" where
  "call_hasOwnProperty object key =
     (if hasOwnProperty object ''hasOwnProperty''
      then Inl (TypeError ''object.hasOwnProperty is not a function'')
      else Inr (hasOwnProperty object key))"

text \<open>\<^verbatim>\<open>object[key]\<close>: a missing property reads as \<^verbatim>\<open>undefined\<close>.\<close>

definition js_get :: "jsobject \<Rightarrow> string \<Rightarrow> jsval" where
  "js_get object key = (case map_of object key of None \<Rightarrow> JUndefined | Some v \<Rightarrow> v)"

text \<open>\<^verbatim>\<open>object[key] = v\<close>: overwrite in place, or append a new own property.\<close>

definition js_set :: "jsobject \<Rightarrow> string \<Rightarrow> jsval \<Rightarrow> jsobject" where
  "js_set object key v = AList.update key v object"

text \<open>\<^verbatim>\<open>delete object[key]\<close>.\<close>

definition js_delete :: "jsobject \<Rightarrow> string \<Rightarrow> jsobject" where
  "js_delete object key = AList.delete key object"

definition keys :: "jsobject \<Rightarrow> string set" where
  "keys object = fst ` set object"

text \<open>
  \<^verbatim>\<open>value._id\<close> for a value with \<^verbatim>\<open>typeof value === 'object'\<close>: reading a
  property of \<^verbatim>\<open>null\<close> throws, an array or the sentinel has no \<^verbatim>\<open>_id\<close>.
\<close>

fun read_id :: "jsval \<Rightarrow> js_error + jsval" where
  "read_id JNull = Inl (TypeError ''Cannot read properties of null (reading '_id')'')"
| "read_id JUndefined = Inl (TypeError ''Cannot read properties of undefined (reading '_id')'')"
| "read_id (JObj ps) = Inr (js_get ps ''_id'')"
| "read_id v = Inr JUndefined"

subsection \<open>Template literals\<close>

function dec_nat :: "nat \<Rightarrow> string" where
  "dec_nat n =
     (if n < 10 then [''0123456789'' ! n]
      else dec_nat (n div 10) @ [''0123456789'' ! (n mod 10)])"
  by pat_completeness auto
termination
  by (relation "measure (\<lambda>n. n)") auto

declare dec_nat.simps [simp del]

definition dec_int :: "int \<Rightarrow> string" where
  "dec_int i = (if i < 0 then CHR ''-'' # dec_nat (nat (- i)) else dec_nat (nat i))"

fun join_comma :: "string list \<Rightarrow> string" where
  "join_comma [] = []"
| "join_comma [s] = s"
| "join_comma (s # t # ss) = s @ '','' @ join_comma (t # ss)"

text \<open>
  What \<^verbatim>\<open>${value}\<close> renders: an array joins its elements with commas, \<^verbatim>\<open>null\<close>
  and \<^verbatim>\<open>undefined\<close> elements rendering empty; any object is \<^verbatim>\<open>[object Object]\<close>.
\<close>

fun js_toString :: "jsval \<Rightarrow> string" where
  "js_toString JUndefined = ''undefined''"
| "js_toString JNull = ''null''"
| "js_toString (JBool b) = (if b then ''true'' else ''false'')"
| "js_toString (JNum n) = dec_int (sint n)"
| "js_toString (JStr s) = s"
| "js_toString (JArr xs) =
     join_comma (map (\<lambda>x. if x = JUndefined \<or> x = JNull then [] else js_toString x) xs)"
| "js_toString (JObj ps) = ''[object Object]''"
| "js_toString JDelete = ''[object Object]''"

section \<open>Field definitions and field types\<close>

text \<open>
  A value of the field-definition map, as far as the schema inspects it: one of the four
  constructors \<^verbatim>\<open>String\<close>, \<^verbatim>\<open>Boolean\<close>, \<^verbatim>\<open>Date\<close>, \<^verbatim>\<open>Number\<close>; a plain
  object, given by \<^verbatim>\<open>Object.keys\<close> of it; an array literal; \<^verbatim>\<open>null\<close>; or anything
  else (a primitive, another function, \<^verbatim>\<open>undefined\<close>).
\<close>

datatype fielddef =
    FString
  | FBoolean
  | FDate
  | FNumber
  | FObject "string list"
  | FArray "fielddef list"
  | FNull
  | FOther

text \<open>
  The field-definition map: its keys with their definitions, in the order in which
  \<^verbatim>\<open>for (const key in this._fieldDefs)\<close> enumerates them.
\<close>

type_synonym fielddefs = "(string \<times> fielddef) list"

text \<open>\<^verbatim>\<open>this._fieldDefs[key]\<close>.\<close>

definition fieldDef :: "fielddefs \<Rightarrow> string \<Rightarrow> fielddef" where
  "fieldDef defs key = (case map_of defs key of None \<Rightarrow> FOther | Some d \<Rightarrow> d)"

text \<open>\<^verbatim>\<open>d[0]\<close> of an array literal; the empty array gives \<^verbatim>\<open>undefined\<close>.\<close>

fun first_def :: "fielddef list \<Rightarrow> fielddef" where
  "first_def [] = FOther"
| "first_def (d # ds) = d"

fun def_typeof_object :: "fielddef \<Rightarrow> bool" where
  "def_typeof_object (FObject ks) = True"
| "def_typeof_object (FArray ds) = True"
| "def_typeof_object FNull = True"
| "def_typeof_object d = False"

text \<open>
  \<^verbatim>\<open>typeof d === 'object' && Object.keys(d).includes('ref')\<close>. \<^verbatim>\<open>Object.keys(null)\<close>
  throws; the keys of an array literal are its indices.
\<close>

fun is_ref_def :: "fielddef \<Rightarrow> js_error + bool" where
  "is_ref_def FNull = Inl (TypeError ''Cannot convert undefined or null to object'')"
| "is_ref_def (FObject ks) = Inr (''ref'' \<in> set ks)"
| "is_ref_def d = Inr False"

text \<open>
  The modules under \<^verbatim>\<open>./types\<close> are taken as parameters: each offers the four
  functions the schema calls.
\<close>

record fieldtype =
  validate :: "jsval \<Rightarrow> bool"
  validateArray :: "jsval \<Rightarrow> bool"
  getValue :: "jsval \<Rightarrow> jsval"
  getValueArray :: "jsval \<Rightarrow> jsval"

record types =
  StringType :: fieldtype
  BooleanType :: fieldtype
  DateType :: fieldtype
  NumberType :: fieldtype
  RefType :: fieldtype

section \<open>Models and the schema\<close>

text \<open>
  What the schema reads of a model: its name, the field definitions of its schema
  (\<^verbatim>\<open>_modelSchema._fieldDefs\<close>), and the two fetches, taken as functions of
  their arguments.
\<close>

record model =
  modelName :: string
  modelSchema_fieldDefs :: fielddefs
  findById :: "jsval \<Rightarrow> bool \<Rightarrow> jsval"
  find_docs :: "string \<Rightarrow> string \<Rightarrow> jsval \<Rightarrow> bool \<Rightarrow> jsval"

record populate_def =
  path :: string
  model :: string

record 'cb preOp =
  operation :: string
  cb :: 'cb

record virtualDef =
  ref :: string
  localField :: string
  foreignField :: string

record virtual_entry =
  fieldName :: string
  virtualDef :: virtualDef

record upload_entry =
  storagePath :: string
  upload_path :: string

record ('cb, 'fs) schema =
  s_fieldDefs :: fielddefs
  s_preOps :: "'cb preOp list"
  s_firestoreInstance :: "'fs option"
  s_model :: "model option"
  s_models :: "model list option"
  s_populates :: "populate_def list"
  s_virtuals :: "virtual_entry list"
  s_uploads :: "upload_entry list"

definition Schema :: "fielddefs \<Rightarrow> ('cb, 'fs) schema" where
  "Schema fieldDefs =
     \<lparr> s_fieldDefs = fieldDefs, s_preOps = [], s_firestoreInstance = None,
       s_model = None, s_models = None, s_populates = [], s_virtuals = [],
       s_uploads = [] \<rparr>"

definition setFirestoreInstance :: "('cb, 'fs) schema \<Rightarrow> 'fs \<Rightarrow> ('cb, 'fs) schema" where
  "setFirestoreInstance S firestoreInstance = S\<lparr> s_firestoreInstance := Some firestoreInstance \<rparr>"

definition setModel :: "('cb, 'fs) schema \<Rightarrow> model \<Rightarrow> ('cb, 'fs) schema" where
  "setModel S m = S\<lparr> s_model := Some m \<rparr>"

definition setModels :: "('cb, 'fs) schema \<Rightarrow> model list \<Rightarrow> ('cb, 'fs) schema" where
  "setModels S ms = S\<lparr> s_models := Some ms \<rparr>"

text \<open>
  \<^verbatim>\<open>this._model._modelName\<close> inside a template literal: it throws while no model is
  attached.
\<close>

definition owner_name :: "('cb, 'fs) schema \<Rightarrow> js_error + string" where
  "owner_name S =
     (case s_model S of
        None \<Rightarrow> Inl (TypeError ''Cannot read properties of null (reading '_modelName')'')
      | Some m \<Rightarrow> Inr (modelName m))"

subsection \<open>Validation and coercion dispatch\<close>

definition invalid_text :: "string \<Rightarrow> string \<Rightarrow> string \<Rightarrow> jsval \<Rightarrow> string" where
  "invalid_text name key expected v =
     name @ '' property '' @ [CHR 0x27] @ key @ [CHR 0x27] @ '' is invalid. Expected ''
       @ expected @ ''. Value: '' @ js_toString v @ ''.''"

text \<open>\<^verbatim>\<open>throw new Error(`${this._model._modelName} property '${key}' is invalid. ...`)\<close>.\<close>

definition invalid :: "('cb, 'fs) schema \<Rightarrow> string \<Rightarrow> string \<Rightarrow> jsval \<Rightarrow> js_error" where
  "invalid S key expected v =
     (case owner_name S of
        Inl e \<Rightarrow> e
      | Inr name \<Rightarrow> Error (invalid_text name key expected v))"

text \<open>
  One \<^verbatim>\<open>if (cond) { valid = ok; if (!valid) throw err; }\<close> of \<^verbatim>\<open>_validateField\<close>,
  applied to the current \<^verbatim>\<open>valid\<close>.
\<close>

definition check :: "bool \<Rightarrow> bool \<Rightarrow> js_error \<Rightarrow> bool \<Rightarrow> js_error + bool" where
  "check cond ok err valid = (if cond then (if ok then Inr ok else Inl err) else Inr valid)"

definition schema_validateField ::
  "types \<Rightarrow> ('cb, 'fs) schema \<Rightarrow> string \<Rightarrow> jsval \<Rightarrow> js_error + bool" where
  "schema_validateField T S key v =
     (let d = fieldDef (s_fieldDefs S) key in
      then_do (check (d = FString) (validate (StringType T) v)
                 (invalid S key ''String'' v) False) (\<lambda>valid.
      then_do (check (d = FBoolean) (validate (BooleanType T) v)
                 (invalid S key ''Boolean'' v) valid) (\<lambda>valid.
      then_do (check (d = FDate) (validate (DateType T) v)
                 (invalid S key ''Date'' v) valid) (\<lambda>valid.
      then_do (check (d = FNumber) (validate (NumberType T) v)
                 (invalid S key ''Number'' v) valid) (\<lambda>valid.
      then_do (is_ref_def d) (\<lambda>isRef.
      then_do (check isRef (validate (RefType T) v)
                 (invalid S key ''Document ID'' v) valid) (\<lambda>valid.
      then_do
        (case d of
           FArray ds \<Rightarrow>
             then_do (check (first_def ds = FString) (validateArray (StringType T) v)
                        (invalid S key ''Array<String>'' v) valid) (\<lambda>valid.
             then_do (is_ref_def (first_def ds)) (\<lambda>isRef.
             check isRef (validateArray (RefType T) v)
               (invalid S key ''Array<Document ID>'' v) valid))
         | _ \<Rightarrow> Inr valid) (\<lambda>valid.
      Inr (if def_typeof_object d then True else valid)))))))))"

text \<open>
  \<^verbatim>\<open>_getValue\<close> is a run of independent \<^verbatim>\<open>if\<close> statements, each assigning
  \<^verbatim>\<open>retVal\<close>; the last one assigns the raw value whenever the definition has
  \<^verbatim>\<open>typeof\<close> \<^verbatim>\<open>'object'\<close>.
\<close>

definition schema_getValue ::
  "types \<Rightarrow> ('cb, 'fs) schema \<Rightarrow> string \<Rightarrow> jsval \<Rightarrow> js_error + jsval" where
  "schema_getValue T S key v =
     (let d = fieldDef (s_fieldDefs S) key;
          retVal = JNull;
          retVal = (if d = FString then getValue (StringType T) v else retVal);
          retVal = (if d = FBoolean then getValue (BooleanType T) v else retVal);
          retVal = (if d = FDate then getValue (DateType T) v else retVal);
          retVal = (if d = FNumber then getValue (NumberType T) v else retVal)
      in
      then_do (is_ref_def d) (\<lambda>isRef.
      let retVal = (if isRef then getValue (RefType T) v else retVal) in
      then_do
        (case d of
           FArray ds \<Rightarrow>
             (let retVal = (if first_def ds = FString then getValueArray (StringType T) v
                            else retVal)
              in then_do (is_ref_def (first_def ds)) (\<lambda>isRef.
                 Inr (if isRef then getValueArray (RefType T) v else retVal)))
         | _ \<Rightarrow> Inr retVal) (\<lambda>retVal.
      Inr (if def_typeof_object d then v else retVal))))"

subsection \<open>Reference collapsing\<close>

text \<open>
  \<^verbatim>\<open>for (const value of object[key])\<close>: an array yields its elements, a string its
  characters; nothing else among the values is iterable.
\<close>

fun iterate :: "jsval \<Rightarrow> js_error + jsval list" where
  "iterate (JArr xs) = Inr xs"
| "iterate (JStr s) = Inr (map (\<lambda>c. JStr [c]) s)"
| "iterate v = Inl (TypeError ''object[key] is not iterable'')"

text \<open>The body of both loops: a structured value is replaced by its \<^verbatim>\<open>_id\<close>.\<close>

definition collapse :: "jsval \<Rightarrow> js_error + jsval" where
  "collapse v = (if typeof_object v then read_id v else Inr v)"

fun collapse_all :: "jsval list \<Rightarrow> jsval list \<Rightarrow> js_error + jsval list" where
  "collapse_all [] depopulated = Inr depopulated"
| "collapse_all (v # vs) depopulated =
     then_do (collapse v) (\<lambda>c. collapse_all vs (depopulated @ [c]))"

text \<open>
  \<^verbatim>\<open>_depopulate\<close> assigns \<^verbatim>\<open>object[key]\<close> only after its loop has finished, so a
  throw leaves the object as it was; the result is the object after the call.
\<close>

definition schema_depopulate ::
  "('cb, 'fs) schema \<Rightarrow> string \<Rightarrow> jsobject \<Rightarrow> js_error + jsobject" where
  "schema_depopulate S key object =
     (let d = fieldDef (s_fieldDefs S) key in
      then_do (case d of FArray ds \<Rightarrow> is_ref_def (first_def ds) | _ \<Rightarrow> Inr False)
        (\<lambda>isRefArray.
      then_do (is_ref_def d) (\<lambda>isRef.
      then_do
        (if isRefArray then
           then_do (iterate (js_get object key)) (\<lambda>vs.
           then_do (collapse_all vs []) (\<lambda>depopulated.
           Inr (js_set object key (JArr depopulated))))
         else Inr object) (\<lambda>object.
      if isRef then
        then_do (collapse (js_get object key)) (\<lambda>c. Inr (js_set object key c))
      else Inr object))))"

text \<open>
  The value that \<^verbatim>\<open>_depopulate\<close> leaves in \<^verbatim>\<open>object[key]\<close> for a field so declared
  that holds \<open>v\<close>, or what it throws: a reference is collapsed, an array of references
  is collapsed element by element, and any other field keeps its value.
\<close>

fun depopulated :: "fielddef \<Rightarrow> jsval \<Rightarrow> js_error + jsval" where
  "depopulated (FObject ks) v = (if ''ref'' \<in> set ks then collapse v else Inr v)"
| "depopulated (FArray (FObject ks # ds)) v =
     (if ''ref'' \<in> set ks then
        then_do (iterate v) (\<lambda>vs.
        then_do (collapse_all vs []) (\<lambda>collapsed. Inr (JArr collapsed)))
      else Inr v)"
| "depopulated (FArray (FNull # ds)) v =
     Inl (TypeError ''Cannot convert undefined or null to object'')"
| "depopulated FNull v = Inl (TypeError ''Cannot convert undefined or null to object'')"
| "depopulated d v = Inr v"

subsection \<open>Document build\<close>

text \<open>
  The body of the \<^verbatim>\<open>try\<close> block: the source object after it, and the value to store
  or the error thrown.
\<close>

definition build_field ::
  "types \<Rightarrow> ('cb, 'fs) schema \<Rightarrow> bool \<Rightarrow> string \<Rightarrow> jsobject \<Rightarrow> jsobject \<times> (js_error + jsval)" where
  "build_field T S cleanRefs key object =
     (case (if cleanRefs then schema_depopulate S key object else Inr object) of
        Inl e \<Rightarrow> (object, Inl e)
      | Inr object' \<Rightarrow>
          (object',
           then_do (schema_validateField T S key (js_get object' key)) (\<lambda>_.
           schema_getValue T S key (js_get object' key))))"

definition processing_text :: "string \<Rightarrow> string \<Rightarrow> string" where
  "processing_text name inner =
     ''Error processing '' @ name @ ''. Operation Failed. Inner Exception: '' @ inner"

text \<open>
  The \<^verbatim>\<open>catch\<close> block: \<^verbatim>\<open>console.warn\<close> prints the text that the new error then
  carries.
\<close>

definition rethrow :: "('cb, 'fs) schema \<Rightarrow> js_error \<Rightarrow> js_error" where
  "rethrow S e =
     (case owner_name S of
        Inl e' \<Rightarrow> e'
      | Inr name \<Rightarrow> Error (processing_text name (message e)))"

text \<open>
  The loop \<^verbatim>\<open>for (const key in this._fieldDefs)\<close> over the remaining keys, with the
  source object and \<^verbatim>\<open>retObject\<close> as they stand. The call of \<^verbatim>\<open>hasOwnProperty\<close>
  stands before the \<^verbatim>\<open>try\<close> block, so what it throws leaves the build as it is;
  the second call, in the \<^verbatim>\<open>else if\<close>, answers as the first.
\<close>

fun build_loop ::
  "types \<Rightarrow> ('cb, 'fs) schema \<Rightarrow> bool \<Rightarrow> bool \<Rightarrow> string list \<Rightarrow> jsobject \<Rightarrow> jsobject
     \<Rightarrow> jsobject \<times> (js_error + jsobject)" where
  "build_loop T S includeDeletes cleanRefs [] object retObject = (object, Inr retObject)"
| "build_loop T S includeDeletes cleanRefs (key # ks) object retObject =
     (case call_hasOwnProperty object key of
        Inl e \<Rightarrow> (object, Inl e)
      | Inr own \<Rightarrow>
          if own \<and> js_get object key = JUndefined \<and> includeDeletes then
            build_loop T S includeDeletes cleanRefs ks object (js_set retObject key JDelete)
          else if own \<and> js_get object key \<noteq> JUndefined then
            (case build_field T S cleanRefs key object of
               (object', Inl e) \<Rightarrow> (object', Inl (rethrow S e))
             | (object', Inr v) \<Rightarrow>
                 build_loop T S includeDeletes cleanRefs ks object' (js_set retObject key v))
          else build_loop T S includeDeletes cleanRefs ks object retObject)"

text \<open>The statements after the loop.\<close>

definition build_finish :: "bool \<Rightarrow> jsobject \<Rightarrow> jsobject \<Rightarrow> jsobject" where
  "build_finish removeId object retObject =
     (let retObject = js_set retObject ''_id'' (js_get object ''_id'');
          retObject = (if truthy (js_get object ''_c'')
                       then js_set retObject ''_c'' (js_get object ''_c'') else retObject);
          retObject = (if truthy (js_get object ''_u'')
                       then js_set retObject ''_u'' (js_get object ''_u'') else retObject)
      in if removeId then js_delete retObject ''_id'' else retObject)"

text \<open>
  \<^verbatim>\<open>_build\<close>: the first component is the source object as the call leaves it, the
  second the returned document or the error raised.
\<close>

definition schema_build ::
  "types \<Rightarrow> ('cb, 'fs) schema \<Rightarrow> jsobject \<Rightarrow> bool \<Rightarrow> bool \<Rightarrow> bool
     \<Rightarrow> jsobject \<times> (js_error + jsobject)" where
  "schema_build T S object removeId includeDeletes cleanRefs =
     (case build_loop T S includeDeletes cleanRefs (map fst (s_fieldDefs S)) object [] of
        (object', Inl e) \<Rightarrow> (object', Inl e)
      | (object', Inr retObject) \<Rightarrow> (object', Inr (build_finish removeId object' retObject)))"

subsection \<open>Relationship and virtual-field resolution\<close>

text \<open>
  The asynchronous functions await every fetch before they go on, so they are modelled
  as sequential runs; a rejected promise is an error value. The state carries the
  document being mutated and the fetches issued so far, each with the name of the model
  that received it.
\<close>

datatype call =
    FindById string jsval bool
  | Find string string string jsval bool

text \<open>\<^verbatim>\<open>this._models.find(m => m._modelName === modelName)\<close>.\<close>

definition find_model :: "model list \<Rightarrow> string \<Rightarrow> model option" where
  "find_model ms name = List.find (\<lambda>m. modelName m = name) ms"

text \<open>
  Modelled from the spec: \<^verbatim>\<open>asyncForEach\<close> of \<^verbatim>\<open>./utils\<close>, which is not among the
  sources. It calls the callback on the elements in index order, each call awaited
  before the next one starts; a rejected call ends the run.
\<close>

fun asyncForEach ::
  "'a list \<Rightarrow> ('a \<Rightarrow> 's \<Rightarrow> 's \<times> js_error option) \<Rightarrow> 's \<Rightarrow> 's \<times> js_error option" where
  "asyncForEach [] callback st = (st, None)"
| "asyncForEach (x # xs) callback st =
     (case callback x st of
        (st', Some e) \<Rightarrow> (st', Some e)
      | (st', None) \<Rightarrow> asyncForEach xs callback st')"

text \<open>
  \<^verbatim>\<open>v.length > 0\<close> for a truthy \<^verbatim>\<open>v\<close>, and the elements \<^verbatim>\<open>v[0]\<close>, \<^verbatim>\<open>v[1]\<close>, ...
  below \<^verbatim>\<open>v.length\<close>. An array-like object is read when its \<^verbatim>\<open>length\<close> is a
  number; a \<^verbatim>\<open>length\<close> of another type, which the comparison would coerce, is
  taken as no elements.
\<close>

fun has_elements :: "jsval \<Rightarrow> bool" where
  "has_elements (JArr xs) = (0 < length xs)"
| "has_elements (JStr s) = (0 < length s)"
| "has_elements (JObj ps) = (case js_get ps ''length'' of JNum n \<Rightarrow> 0 < sint n | _ \<Rightarrow> False)"
| "has_elements v = False"

fun elements :: "jsval \<Rightarrow> jsval list" where
  "elements (JArr xs) = xs"
| "elements (JStr s) = map (\<lambda>c. JStr [c]) s"
| "elements (JObj ps) =
     (case js_get ps ''length'' of
        JNum n \<Rightarrow> map (\<lambda>i. js_get ps (dec_nat i)) [0 ..< nat (sint n)]
      | _ \<Rightarrow> [])"
| "elements v = []"

text \<open>
  The callback of the array branch: \<^verbatim>\<open>model.findById\<close> throws when the registry had
  no model of that name.
\<close>

definition fetch_one ::
  "model option \<Rightarrow> jsval \<Rightarrow> jsval list \<times> call list \<Rightarrow> (jsval list \<times> call list) \<times> js_error option" where
  "fetch_one target r st =
     (if r \<noteq> JUndefined then
        (case target of
           None \<Rightarrow>
             (st, Some (TypeError ''Cannot read properties of undefined (reading 'findById')''))
         | Some m \<Rightarrow>
             ((fst st @ [findById m r True], snd st @ [FindById (modelName m) r True]), None))
      else (st, None))"

text \<open>The body of the loop of \<^verbatim>\<open>_doPopulates\<close>.\<close>

definition populate_one ::
  "('cb, 'fs) schema \<Rightarrow> populate_def \<Rightarrow> jsobject \<times> call list
     \<Rightarrow> (jsobject \<times> call list) \<times> js_error option" where
  "populate_one S populate st =
     (let object = fst st; calls = snd st; p = path populate; name = model populate in
      case s_models S of
        None \<Rightarrow> (st, Some (TypeError ''Cannot read properties of null (reading 'find')''))
      | Some ms \<Rightarrow>
          (let target = find_model ms name in
           case s_model S of
             None \<Rightarrow>
               (st, Some (TypeError ''Cannot read properties of null (reading '_modelSchema')''))
           | Some owner \<Rightarrow>
               (case fieldDef (modelSchema_fieldDefs owner) p of
                  FArray ds \<Rightarrow>
                    (case (if truthy (js_get object p) \<and> has_elements (js_get object p)
                           then asyncForEach (elements (js_get object p)) (fetch_one target)
                                  ([], calls)
                           else (([], calls), None)) of
                       ((results, calls'), Some e) \<Rightarrow> ((object, calls'), Some e)
                     | ((results, calls'), None) \<Rightarrow>
                         ((js_set object p (JArr results), calls'), None))
                | _ \<Rightarrow>
                    (if js_get object p \<noteq> JUndefined then
                       (case target of
                          None \<Rightarrow>
                            (st, Some (TypeError
                               ''Cannot read properties of undefined (reading 'findById')''))
                        | Some m \<Rightarrow>
                            ((js_set object p (findById m (js_get object p) True),
                              calls @ [FindById (modelName m) (js_get object p) True]),
                             None))
                     else (st, None)))))"

fun populates_loop ::
  "('cb, 'fs) schema \<Rightarrow> populate_def list \<Rightarrow> jsobject \<times> call list
     \<Rightarrow> (jsobject \<times> call list) \<times> js_error option" where
  "populates_loop S [] st = (st, None)"
| "populates_loop S (populate # ps) st =
     (case populate_one S populate st of
        (st', Some e) \<Rightarrow> (st', Some e)
      | (st', None) \<Rightarrow> populates_loop S ps st')"

text \<open>
  \<^verbatim>\<open>_doPopulates\<close>: the document and the fetches made, and the rejection if there is
  one; the promise otherwise resolves to that same document.
\<close>

definition schema_doPopulates ::
  "('cb, 'fs) schema \<Rightarrow> jsobject \<Rightarrow> (jsobject \<times> call list) \<times> js_error option" where
  "schema_doPopulates S object = populates_loop S (s_populates S) (object, [])"

text \<open>The body of the loop of \<^verbatim>\<open>_doVirtuals\<close>.\<close>

definition virtual_one ::
  "('cb, 'fs) schema \<Rightarrow> virtual_entry \<Rightarrow> jsobject \<times> call list
     \<Rightarrow> (jsobject \<times> call list) \<times> js_error option" where
  "virtual_one S virtual st =
     (let object = fst st; calls = snd st; vd = virtualDef virtual in
      case s_models S of
        None \<Rightarrow> (st, Some (TypeError ''Cannot read properties of null (reading 'find')''))
      | Some ms \<Rightarrow>
          (case find_model ms (ref vd) of
             None \<Rightarrow>
               (st, Some (TypeError ''Cannot read properties of undefined (reading 'find')''))
           | Some m \<Rightarrow>
               ((js_set object (fieldName virtual)
                   (find_docs m (foreignField vd) ''=='' (js_get object (localField vd)) True),
                 calls @ [Find (modelName m) (foreignField vd) ''==''
                            (js_get object (localField vd)) True]),
                None)))"

fun virtuals_loop ::
  "('cb, 'fs) schema \<Rightarrow> virtual_entry list \<Rightarrow> jsobject \<times> call list
     \<Rightarrow> (jsobject \<times> call list) \<times> js_error option" where
  "virtuals_loop S [] st = (st, None)"
| "virtuals_loop S (virtual # vs) st =
     (case virtual_one S virtual st of
        (st', Some e) \<Rightarrow> (st', Some e)
      | (st', None) \<Rightarrow> virtuals_loop S vs st')"

definition schema_doVirtuals ::
  "('cb, 'fs) schema \<Rightarrow> jsobject \<Rightarrow> (jsobject \<times> call list) \<times> js_error option" where
  "schema_doVirtuals S object = virtuals_loop S (s_virtuals S) (object, [])"

text \<open>
  Whether the step of \<^verbatim>\<open>_doPopulates\<close> for a field so declared and holding \<open>v\<close>
  calls \<^verbatim>\<open>findById\<close>: in the array branch the guard on the value holds and some element
  is not \<^verbatim>\<open>undefined\<close>; in the other branch the value is not \<^verbatim>\<open>undefined\<close>.
\<close>

definition fetches :: "fielddef \<Rightarrow> jsval \<Rightarrow> bool" where
  "fetches declared v =
     (case declared of
        FArray ds \<Rightarrow> truthy v \<and> has_elements v \<and> list_ex (\<lambda>r. r \<noteq> JUndefined) (elements v)
      | _ \<Rightarrow> v \<noteq> JUndefined)"

subsection \<open>Registration\<close>

text \<open>
  Each registry entry is an object, hence truthy, so \<^verbatim>\<open>!registry.find(...)\<close> holds
  exactly when no entry has the key.
\<close>

definition populate :: "('cb, 'fs) schema \<Rightarrow> populate_def \<Rightarrow> ('cb, 'fs) schema" where
  "populate S def =
     (if List.find (\<lambda>p. path p = path def) (s_populates S) = None
      then S\<lparr> s_populates := s_populates S @ [def] \<rparr> else S)"

definition pre :: "('cb, 'fs) schema \<Rightarrow> string \<Rightarrow> 'cb \<Rightarrow> ('cb, 'fs) schema" where
  "pre S op c =
     (if List.find (\<lambda>p. operation p = op) (s_preOps S) = None
      then S\<lparr> s_preOps := s_preOps S @ [\<lparr> operation = op, cb = c \<rparr>] \<rparr> else S)"

definition virtual :: "('cb, 'fs) schema \<Rightarrow> string \<Rightarrow> virtualDef \<Rightarrow> ('cb, 'fs) schema" where
  "virtual S name vd =
     (if List.find (\<lambda>v. fieldName v = name) (s_virtuals S) = None
      then S\<lparr> s_virtuals := s_virtuals S @ [\<lparr> fieldName = name, virtualDef = vd \<rparr>] \<rparr> else S)"

definition upload :: "('cb, 'fs) schema \<Rightarrow> string \<Rightarrow> string \<Rightarrow> ('cb, 'fs) schema" where
  "upload S sp p =
     (if List.find (\<lambda>v. upload_path v = p) (s_uploads S) = None
      then S\<lparr> s_uploads := s_uploads S @ [\<lparr> storagePath = sp, upload_path = p \<rparr>] \<rparr> else S)"

text \<open>
  The calls that change a schema after its construction, and a run of them in order.
  Building a document and resolving relations read the schema and leave it as it is.
\<close>

datatype ('cb, 'fs) schema_call =
    SetFirestoreInstance 'fs
  | SetModel model
  | SetModels "model list"
  | Populate populate_def
  | Pre string 'cb
  | Virtual string virtualDef
  | Upload string string

fun call_schema :: "('cb, 'fs) schema \<Rightarrow> ('cb, 'fs) schema_call \<Rightarrow> ('cb, 'fs) schema" where
  "call_schema S (SetFirestoreInstance f) = setFirestoreInstance S f"
| "call_schema S (SetModel m) = setModel S m"
| "call_schema S (SetModels ms) = setModels S ms"
| "call_schema S (Populate d) = populate S d"
| "call_schema S (Pre op c) = pre S op c"
| "call_schema S (Virtual name vd) = virtual S name vd"
| "call_schema S (Upload sp p) = upload S sp p"

fun run :: "('cb, 'fs) schema \<Rightarrow> ('cb, 'fs) schema_call list \<Rightarrow> ('cb, 'fs) schema" where
  "run S [] = S"
| "run S (c # cs) = run (call_schema S c) cs"

text \<open>The entries that a run of calls asks to register, in the order of the calls.\<close>

fun asked_populates :: "('cb, 'fs) schema_call list \<Rightarrow> populate_def list" where
  "asked_populates [] = []"
| "asked_populates (Populate d # cs) = d # asked_populates cs"
| "asked_populates (c # cs) = asked_populates cs"

fun asked_preOps :: "('cb, 'fs) schema_call list \<Rightarrow> 'cb preOp list" where
  "asked_preOps [] = []"
| "asked_preOps (Pre op c # cs) = \<lparr> operation = op, cb = c \<rparr> # asked_preOps cs"
| "asked_preOps (c # cs) = asked_preOps cs"

fun asked_virtuals :: "('cb, 'fs) schema_call list \<Rightarrow> virtual_entry list" where
  "asked_virtuals [] = []"
| "asked_virtuals (Virtual name vd # cs) = \<lparr> fieldName = name, virtualDef = vd \<rparr> # asked_virtuals cs"
| "asked_virtuals (c # cs) = asked_virtuals cs"

fun asked_uploads :: "('cb, 'fs) schema_call list \<Rightarrow> upload_entry list" where
  "asked_uploads [] = []"
| "asked_uploads (Upload sp p # cs) = \<lparr> storagePath = sp, upload_path = p \<rparr> # asked_uploads cs"
| "asked_uploads (c # cs) = asked_uploads cs"

text \<open>
  The registration discipline in the words of the specification: a linear existence
  check against the registry by the identity key of the entry, and an append only on a
  miss. The four registration functions are compared with it below.
\<close>

definition register :: "('a \<Rightarrow> 'k) \<Rightarrow> 'a list \<Rightarrow> 'a \<Rightarrow> 'a list" where
  "register key_of registry entry =
     (if List.find (\<lambda>e. key_of e = key_of entry) registry = None then registry @ [entry]
      else registry)"

fun register_all :: "('a \<Rightarrow> 'k) \<Rightarrow> 'a list \<Rightarrow> 'a list \<Rightarrow> 'a list" where
  "register_all key_of registry [] = registry"
| "register_all key_of registry (e # es) = register_all key_of (register key_of registry e) es"

subsection \<open>The dispatch table\<close>


subsection \<open>Sample collaborators\<close>

text \<open>
  A set of type modules and a model to evaluate the schema with on concrete documents:
  each module accepts the values of one primitive type, and arrays of them, and coerces
  by returning its argument; the model answers a fetch by identity with a document of
  that identity.
\<close>

fun is_text :: "jsval \<Rightarrow> bool" where
  "is_text (JStr s) = True"
| "is_text v = False"

fun is_boolean :: "jsval \<Rightarrow> bool" where
  "is_boolean (JBool b) = True"
| "is_boolean v = False"

fun is_number :: "jsval \<Rightarrow> bool" where
  "is_number (JNum n) = True"
| "is_number v = False"

fun array_of :: "(jsval \<Rightarrow> bool) \<Rightarrow> jsval \<Rightarrow> bool" where
  "array_of p (JArr xs) = list_all p xs"
| "array_of p v = False"

definition plain_type :: "(jsval \<Rightarrow> bool) \<Rightarrow> fieldtype" where
  "plain_type p =
     \<lparr> validate = p, validateArray = array_of p, getValue = (\<lambda>v. v),
       getValueArray = (\<lambda>v. v) \<rparr>"

definition sample_types :: types where
  "sample_types =
     \<lparr> StringType = plain_type is_text, BooleanType = plain_type is_boolean,
       DateType = plain_type is_number, NumberType = plain_type is_number,
       RefType = plain_type is_text \<rparr>"

definition sample_model :: "string \<Rightarrow> fielddefs \<Rightarrow> model" where
  "sample_model name defs =
     \<lparr> modelName = name, modelSchema_fieldDefs = defs,
       findById = (\<lambda>i nested. JObj [(''_id'', i)]),
       find_docs = (\<lambda>field op v nested. JArr []) \<rparr>"

definition sample_schema :: "string \<Rightarrow> fielddefs \<Rightarrow> (unit, unit) schema" where
  "sample_schema name defs = setModel (Schema defs) (sample_model name defs)"

text \<open>
  Three schemas of a post: one that populates its array of tags from a registered model,
  one that populates its owner and one with a virtual field of comments, both with an
  empty model registry.
\<close>

definition tagged_post :: "(unit, unit) schema" where
  "tagged_post =
     populate
       (setModels (sample_schema ''Post'' [(''tags'', FArray [FObject [''ref'']])])
          [sample_model ''Tag'' []])
       \<lparr> path = ''tags'', model = ''Tag'' \<rparr>"

definition owned_post :: "(unit, unit) schema" where
  "owned_post =
     populate
       (setModels (sample_schema ''Post'' [(''owner'', FObject [''ref''])]) [])
       \<lparr> path = ''owner'', model = ''User'' \<rparr>"

definition commented_post :: "(unit, unit) schema" where
  "commented_post =
     virtual (setModels (sample_schema ''Post'' []) []) ''comments''
       \<lparr> ref = ''Comment'', localField = ''_id'', foreignField = ''post'' \<rparr>"

section \<open>Coercion dispatch\<close>

text \<open>
  C1. For a field declared as a reference, as an array of text or as an array of
  references, \<^verbatim>\<open>_getValue\<close> returns the value it was given, whatever the coercion of
  the declared type computes: the coerced value is assigned first and then overwritten
  by the raw one, since such a definition has \<^verbatim>\<open>typeof\<close> \<^verbatim>\<open>'object'\<close> as well. So
  a build stores the text of a reference field as it came, whichever functions \<open>g\<close> and
  \<open>h\<close> the reference module coerces with.
\<close>

theorem getValue_discards_coercion:
  "schema_getValue T (S\<lparr> s_fieldDefs := [(key, FObject [''ref''])] \<rparr>) key v = Inr v
   \<and> schema_getValue T (S\<lparr> s_fieldDefs := [(key, FArray [FString])] \<rparr>) key v = Inr v
   \<and> schema_getValue T (S\<lparr> s_fieldDefs := [(key, FArray [FObject [''ref'']])] \<rparr>) key v = Inr v
   \<and> schema_build
        (T\<lparr> RefType := \<lparr> validate = is_text, validateArray = array_of is_text,
                          getValue = g, getValueArray = h \<rparr> \<rparr>)
        (sample_schema ''Post'' [(''owner'', FObject [''ref''])])
        [(''owner'', JStr '' u1 '')] False False False
      = ([(''owner'', JStr '' u1 '')],
         Inr [(''owner'', JStr '' u1 ''), (''_id'', JUndefined)])"
  by (simp add: schema_getValue_def fieldDef_def then_do_def schema_validateField_def
      check_def schema_build_def build_loop.simps call_hasOwnProperty_def
      build_field_def hasOwnProperty_def js_get_def js_set_def
      build_finish_def sample_schema_def Schema_def setModel_def)

text \<open>
  C3. A field declared as an array of numbers, booleans or dates is validated by no
  predicate and coerced by nothing: \<^verbatim>\<open>_validateField\<close> answers true and
  \<^verbatim>\<open>_getValue\<close> returns the value as it is, for every value and every set of type
  modules; only the array of text reaches its uniform-array predicate. A build with a
  text in a field declared as an array of numbers therefore returns a document.
\<close>

theorem scalar_arrays_not_validated:
  "schema_validateField T (S\<lparr> s_fieldDefs := [(key, FArray [FNumber])] \<rparr>) key v = Inr True
   \<and> schema_validateField T (S\<lparr> s_fieldDefs := [(key, FArray [FBoolean])] \<rparr>) key v = Inr True
   \<and> schema_validateField T (S\<lparr> s_fieldDefs := [(key, FArray [FDate])] \<rparr>) key v = Inr True
   \<and> schema_getValue T (S\<lparr> s_fieldDefs := [(key, FArray [FNumber])] \<rparr>) key v = Inr v
   \<and> schema_build T (sample_schema ''Item'' [(''sizes'', FArray [FNumber])])
        [(''sizes'', JStr ''large'')] False False False
      = ([(''sizes'', JStr ''large'')], Inr [(''sizes'', JStr ''large''), (''_id'', JUndefined)])"
  by (simp add: schema_validateField_def schema_getValue_def fieldDef_def then_do_def
      check_def schema_build_def build_loop.simps call_hasOwnProperty_def
      build_field_def hasOwnProperty_def js_get_def js_set_def
      build_finish_def sample_schema_def Schema_def setModel_def)

section \<open>Document build\<close>

subsection \<open>Objects as property lists\<close>

lemma map_of_js_set: "map_of (js_set object key v) k = (if k = key then Some v else map_of object k)"
  by (simp add: js_set_def update_conv')

lemma keys_js_set: "keys (js_set object key v) = insert key (keys object)"
  by (simp add: js_set_def keys_def dom_update)

lemma keys_js_delete: "keys (js_delete object key) = keys object - {key}"
  by (auto simp: js_delete_def keys_def delete_conv' dom_map_of_conv_image_fst [symmetric])

subsection \<open>One turn of the loop\<close>

lemma build_loop_shadowed:
  assumes "hasOwnProperty object ''hasOwnProperty''"
  shows "build_loop T S incl clean (key # ks) object ret
     = (object, Inl (TypeError ''object.hasOwnProperty is not a function''))"
  using assms by (simp add: call_hasOwnProperty_def)

lemma build_loop_Cons:
  assumes "\<not> hasOwnProperty object ''hasOwnProperty''"
  shows "build_loop T S incl clean (key # ks) object ret =
     (if hasOwnProperty object key \<and> js_get object key = JUndefined \<and> incl then
        build_loop T S incl clean ks object (js_set ret key JDelete)
      else if hasOwnProperty object key \<and> js_get object key \<noteq> JUndefined then
        (case build_field T S clean key object of
           (object', Inl e) \<Rightarrow> (object', Inl (rethrow S e))
         | (object', Inr v) \<Rightarrow> build_loop T S incl clean ks object' (js_set ret key v))
      else build_loop T S incl clean ks object ret)"
  using assms by (simp add: call_hasOwnProperty_def)

declare build_loop.simps(2) [simp del]

subsection \<open>What the loop changes\<close>

lemma depopulate_frame:
  assumes "schema_depopulate S key object = Inr object'"
  shows "object' = object \<or> (\<exists>v. object' = js_set object key v)"
  using assms
  by (auto simp: schema_depopulate_def then_do_def Let_def
      split: sum.splits if_splits fielddef.splits)

lemma build_field_frame:
  assumes "build_field T S cleanRefs key object = (object', r)"
  shows "object' = object \<or> (cleanRefs \<and> (\<exists>v. object' = js_set object key v))"
  using assms depopulate_frame [of S key object]
  by (auto simp: build_field_def split: sum.splits if_splits)

lemma build_loop_frame:
  assumes "build_loop T S incl clean ks object ret = (object', r)"
  shows "map_of object' k = map_of object k
     \<or> (clean \<and> k \<in> set ks \<and> hasOwnProperty object k \<and> js_get object k \<noteq> JUndefined)"
  using assms
proof (induction ks arbitrary: object ret)
  case Nil
  then show ?case by simp
next
  case (Cons key ks)
  show ?case
  proof (cases "hasOwnProperty object ''hasOwnProperty''")
    case True
    with Cons.prems show ?thesis by (simp add: build_loop_shadowed)
  next
  case unshadowed: False
  note [simp] = build_loop_Cons [OF unshadowed]
  show ?thesis
  proof (cases "hasOwnProperty object key \<and> js_get object key = JUndefined \<and> incl")
    case True
    with Cons.prems have "build_loop T S incl clean ks object (js_set ret key JDelete) = (object', r)"
      by simp
    from Cons.IH [OF this] show ?thesis by auto
  next
    case False
    note nodel = this
    show ?thesis
    proof (cases "hasOwnProperty object key \<and> js_get object key \<noteq> JUndefined")
      case False
      with nodel Cons.prems have "build_loop T S incl clean ks object ret = (object', r)"
        by auto
      from Cons.IH [OF this] show ?thesis by auto
    next
      case True
      obtain object1 r1 where bf: "build_field T S clean key object = (object1, r1)"
        by (cases "build_field T S clean key object")
      from build_field_frame [OF bf]
      have fr: "map_of object1 k = map_of object k \<or> (clean \<and> k = key)"
        by (auto simp: map_of_js_set split: if_splits)
      have own1: "k \<noteq> key \<Longrightarrow> hasOwnProperty object1 k = hasOwnProperty object k"
        and get1: "k \<noteq> key \<Longrightarrow> js_get object1 k = js_get object k"
        using build_field_frame [OF bf]
        by (auto simp: hasOwnProperty_def js_get_def map_of_js_set)
      show ?thesis
      proof (cases r1)
        case (Inl e)
        with Cons.prems nodel True bf have "object' = object1" by auto
        with fr True show ?thesis by auto
      next
        case (Inr v)
        with Cons.prems nodel True bf
        have "build_loop T S incl clean ks object1 (js_set ret key v) = (object', r)" by auto
        from Cons.IH [OF this] fr own1 get1 True show ?thesis by (cases "k = key") auto
      qed
    qed
  qed
  qed
qed

lemma build_loop_clean_False:
  "fst (build_loop T S incl False ks object ret) = object"
proof (induction ks arbitrary: ret incl)
  case Nil
  show ?case by simp
next
  case (Cons key ks)
  obtain r1 where bf: "build_field T S False key object = (object, r1)"
    by (simp add: build_field_def)
  show ?case
  proof (cases "hasOwnProperty object ''hasOwnProperty''")
    case True
    then show ?thesis by (simp add: build_loop_shadowed)
  next
    case unshadowed: False
    note [simp] = build_loop_Cons [OF unshadowed]
    show ?thesis
    proof (cases r1)
      case (Inl e)
      with bf show ?thesis by (simp add: Cons.IH)
    next
      case (Inr v)
      with bf show ?thesis by (simp add: Cons.IH)
    qed
  qed
qed

lemma build_loop_keys:
  assumes "build_loop T S incl clean ks object ret = (object', Inr ret')"
  shows "keys ret' = keys ret \<union>
     {k \<in> set ks. hasOwnProperty object k \<and> (js_get object k \<noteq> JUndefined \<or> incl)}"
  using assms
proof (induction ks arbitrary: object ret)
  case Nil
  then show ?case by simp
next
  case (Cons key ks)
  show ?case
  proof (cases "hasOwnProperty object ''hasOwnProperty''")
    case True
    with Cons.prems show ?thesis by (simp add: build_loop_shadowed)
  next
  case unshadowed: False
  note [simp] = build_loop_Cons [OF unshadowed]
  show ?thesis
  proof (cases "hasOwnProperty object key \<and> js_get object key = JUndefined \<and> incl")
    case True
    with Cons.prems have "build_loop T S incl clean ks object (js_set ret key JDelete) = (object', Inr ret')"
      by simp
    from Cons.IH [OF this] True show ?thesis by (auto simp: keys_js_set)
  next
    case False
    note nodel = this
    show ?thesis
    proof (cases "hasOwnProperty object key \<and> js_get object key \<noteq> JUndefined")
      case False
      with nodel Cons.prems have "build_loop T S incl clean ks object ret = (object', Inr ret')"
        by auto
      from Cons.IH [OF this] False nodel show ?thesis by auto
    next
      case True
      obtain object1 r1 where bf: "build_field T S clean key object = (object1, r1)"
        by (cases "build_field T S clean key object")
      have own1: "\<And>k. k \<noteq> key \<Longrightarrow> hasOwnProperty object1 k = hasOwnProperty object k"
        and get1: "\<And>k. k \<noteq> key \<Longrightarrow> js_get object1 k = js_get object k"
        using build_field_frame [OF bf]
        by (auto simp: hasOwnProperty_def js_get_def map_of_js_set)
      from Cons.prems nodel True bf obtain v where r1: "r1 = Inr v"
        by (cases r1) auto
      with Cons.prems nodel True bf
      have "build_loop T S incl clean ks object1 (js_set ret key v) = (object', Inr ret')" by auto
      from Cons.IH [OF this]
      have "keys ret' = insert key (keys ret) \<union>
          {k \<in> set ks. hasOwnProperty object1 k \<and> (js_get object1 k \<noteq> JUndefined \<or> incl)}"
        by (simp add: keys_js_set)
      also have "\<dots> = keys ret \<union>
          {k \<in> set (key # ks). hasOwnProperty object k \<and> (js_get object k \<noteq> JUndefined \<or> incl)}"
      proof -
        have eq: "\<And>k. k \<noteq> key \<Longrightarrow>
            (hasOwnProperty object1 k \<and> (js_get object1 k \<noteq> JUndefined \<or> incl))
            = (hasOwnProperty object k \<and> (js_get object k \<noteq> JUndefined \<or> incl))"
          using own1 get1 by simp
        show ?thesis
        proof (rule set_eqI)
          fix x
          show "x \<in> insert key (keys ret) \<union>
              {k \<in> set ks. hasOwnProperty object1 k \<and> (js_get object1 k \<noteq> JUndefined \<or> incl)}
            \<longleftrightarrow> x \<in> keys ret \<union>
              {k \<in> set (key # ks). hasOwnProperty object k \<and> (js_get object k \<noteq> JUndefined \<or> incl)}"
            using eq [of x] True by (cases "x = key") auto
        qed
      qed
      finally show ?thesis .
    qed
  qed
  qed
qed

lemma build_loop_delete_marker:
  assumes "build_loop T S True clean ks object ret = (object', Inr ret')"
    and "map_of object key = Some JUndefined"
    and "key \<in> set ks \<or> map_of ret key = Some JDelete"
  shows "map_of ret' key = Some JDelete"
  using assms
proof (induction ks arbitrary: object ret)
  case Nil
  then show ?case by simp
next
  case (Cons k ks)
  show ?case
  proof (cases "hasOwnProperty object ''hasOwnProperty''")
    case True
    with Cons.prems(1) show ?thesis by (simp add: build_loop_shadowed)
  next
  case unshadowed: False
  note [simp] = build_loop_Cons [OF unshadowed]
  show ?thesis
  proof (cases "hasOwnProperty object k \<and> js_get object k = JUndefined")
    case True
    with Cons.prems(1)
    have run: "build_loop T S True clean ks object (js_set ret k JDelete) = (object', Inr ret')"
      by simp
    have "key \<in> set ks \<or> map_of (js_set ret k JDelete) key = Some JDelete"
      using Cons.prems(3) by (auto simp: map_of_js_set)
    from Cons.IH [OF run Cons.prems(2) this] show ?thesis .
  next
    case False
    note nodel = this
    have kk: "k \<noteq> key" using False Cons.prems(2) by (auto simp: hasOwnProperty_def js_get_def)
    show ?thesis
    proof (cases "hasOwnProperty object k \<and> js_get object k \<noteq> JUndefined")
      case False
      with nodel Cons.prems(1) have run: "build_loop T S True clean ks object ret = (object', Inr ret')"
        by auto
      from Cons.IH [OF run Cons.prems(2)] Cons.prems(3) kk show ?thesis by auto
    next
      case True
      obtain object1 r1 where bf: "build_field T S clean k object = (object1, r1)"
        by (cases "build_field T S clean k object")
      have same: "map_of object1 key = Some JUndefined"
        using build_field_frame [OF bf] kk Cons.prems(2) by (auto simp: map_of_js_set)
      from Cons.prems(1) nodel True bf obtain v where r1: "r1 = Inr v"
        by (cases r1) auto
      with Cons.prems(1) nodel True bf
      have run: "build_loop T S True clean ks object1 (js_set ret k v) = (object', Inr ret')" by auto
      have "key \<in> set ks \<or> map_of (js_set ret k v) key = Some JDelete"
        using Cons.prems(3) kk by (auto simp: map_of_js_set)
      from Cons.IH [OF run same this] show ?thesis .
    qed
  qed
  qed
qed

lemma build_loop_append:
  "build_loop T S incl clean (ks @ ks') object ret =
     (case build_loop T S incl clean ks object ret of
        (object', Inl e) \<Rightarrow> (object', Inl e)
      | (object', Inr ret') \<Rightarrow> build_loop T S incl clean ks' object' ret')"
proof (induction ks arbitrary: object ret)
  case Nil
  show ?case by simp
next
  case (Cons k ks)
  obtain object1 r1 where bf: "build_field T S clean k object = (object1, r1)"
    by (cases "build_field T S clean k object")
  show ?case
  proof (cases "hasOwnProperty object ''hasOwnProperty''")
    case True
    then show ?thesis by (simp add: build_loop_shadowed)
  next
    case unshadowed: False
    show ?thesis
    proof (cases r1)
      case (Inl e)
      with bf show ?thesis
        unfolding append_Cons build_loop_Cons [OF unshadowed] Cons.IH by simp
    next
      case (Inr v)
      with bf show ?thesis
        unfolding append_Cons build_loop_Cons [OF unshadowed] Cons.IH by simp
    qed
  qed
qed

lemma keys_build_finish:
  "keys (build_finish removeId object ret) =
     (keys ret \<union> {''_id''} \<union> {k \<in> {''_c'', ''_u''}. truthy (js_get object k)})
     - (if removeId then {''_id''} else {})"
  by (simp add: build_finish_def Let_def keys_js_set keys_js_delete) blast

lemma map_of_build_finish:
  assumes "key \<noteq> ''_id''" and "\<not> truthy (js_get object key)"
  shows "map_of (build_finish removeId object ret) key = map_of ret key"
  using assms
  by (auto simp: build_finish_def Let_def js_delete_def js_set_def update_conv' delete_conv')

lemma schema_build_Inr:
  assumes "schema_build T S object removeId incl clean = (object', Inr doc)"
  obtains ret where
    "build_loop T S incl clean (map fst (s_fieldDefs S)) object [] = (object', Inr ret)"
    and "doc = build_finish removeId object' ret"
  using assms by (auto simp: schema_build_def split: prod.splits sum.splits)

lemma schema_build_Inl:
  assumes "schema_build T S object removeId incl clean = (object', Inl e)"
  shows "build_loop T S incl clean (map fst (s_fieldDefs S)) object [] = (object', Inl e)"
  using assms by (auto simp: schema_build_def split: prod.splits sum.splits)

subsection \<open>Keys of the built document\<close>

text \<open>
  C4, as amended. When build returns a document, its keys are: the declared keys that
  are own properties of the source and whose source value is defined, or explicitly
  unset while \<^verbatim>\<open>includeDeletes\<close> is set; then \<^verbatim>\<open>_id\<close>; then each of \<^verbatim>\<open>_c\<close>
  and \<^verbatim>\<open>_u\<close> that is truthy on the source; and with \<^verbatim>\<open>removeId\<close> set, all of
  these but \<^verbatim>\<open>_id\<close>.
\<close>

theorem build_key_set:
  assumes "schema_build T S object removeId includeDeletes cleanRefs = (object', Inr doc)"
  shows "keys doc =
     ({k \<in> fst ` set (s_fieldDefs S).
         hasOwnProperty object k \<and> (js_get object k \<noteq> JUndefined \<or> includeDeletes)}
      \<union> {''_id''} \<union> {k \<in> {''_c'', ''_u''}. truthy (js_get object k)})
     - (if removeId then {''_id''} else {})"
proof -
  define E where "E = {k \<in> fst ` set (s_fieldDefs S).
         hasOwnProperty object k \<and> (js_get object k \<noteq> JUndefined \<or> includeDeletes)}"
  from assms obtain ret where
    loop: "build_loop T S includeDeletes cleanRefs (map fst (s_fieldDefs S)) object [] = (object', Inr ret)"
    and doc: "doc = build_finish removeId object' ret"
    by (rule schema_build_Inr)
  have ret: "keys ret = E"
    using build_loop_keys [OF loop] by (simp add: keys_def E_def)
  have same: "k \<in> E \<or> js_get object' k = js_get object k" for k
    using build_loop_frame [OF loop, of k] by (auto simp: js_get_def E_def)
  have c: "''_c'' \<in> E \<or> truthy (js_get object' ''_c'') = truthy (js_get object ''_c'')"
    using same [of "''_c''"] by auto
  have u: "''_u'' \<in> E \<or> truthy (js_get object' ''_u'') = truthy (js_get object ''_u'')"
    using same [of "''_u''"] by auto
  have "E \<union> {''_id''} \<union> {k \<in> {''_c'', ''_u''}. truthy (js_get object' k)}
      = E \<union> {''_id''} \<union> {k \<in> {''_c'', ''_u''}. truthy (js_get object k)}"
    using c u by blast
  then have "keys doc = (E \<union> {''_id''} \<union> {k \<in> {''_c'', ''_u''}. truthy (js_get object k)})
     - (if removeId then {''_id''} else {})"
    unfolding doc keys_build_finish ret by simp
  then show ?thesis unfolding E_def .
qed

text \<open>
  The key set is not the plain intersection of declared and own keys: a declared own
  property that is explicitly unset is left out when \<^verbatim>\<open>includeDeletes\<close> is false.
\<close>

theorem build_key_set_counterexample:
  "schema_build sample_types (sample_schema ''Post'' [(''title'', FString)])
       [(''title'', JUndefined)] False False False
     = ([(''title'', JUndefined)], Inr [(''_id'', JUndefined)])
   \<and> keys [(''_id'', JUndefined)]
     \<noteq> (fst ` set [(''title'', FString)] \<inter> keys [(''title'', JUndefined)]) \<union> {''_id''}
         \<union> (if truthy (js_get [(''title'', JUndefined)] ''_c'') then {''_c''} else {})
         \<union> (if truthy (js_get [(''title'', JUndefined)] ''_u'') then {''_u''} else {})"
  by (simp add: schema_build_def build_loop.simps call_hasOwnProperty_def
      build_field_def hasOwnProperty_def js_get_def js_set_def
      build_finish_def sample_schema_def Schema_def setModel_def keys_def)

text \<open>The key set of a build with an unset field, an undeclared one and \<^verbatim>\<open>_c\<close>.\<close>

theorem build_key_set_witness:
  "schema_build sample_types
       (sample_schema ''Post'' [(''title'', FString), (''gone'', FString), (''views'', FNumber)])
       [(''title'', JStr ''Hello''), (''gone'', JUndefined), (''extra'', JNum 1),
        (''_id'', JStr ''p1''), (''_c'', JNum 5)] False False False
     = ([(''title'', JStr ''Hello''), (''gone'', JUndefined), (''extra'', JNum 1),
         (''_id'', JStr ''p1''), (''_c'', JNum 5)],
        Inr [(''title'', JStr ''Hello''), (''_id'', JStr ''p1''), (''_c'', JNum 5)])
   \<and> keys [(''title'', JStr ''Hello''), (''_id'', JStr ''p1''), (''_c'', JNum 5)]
     = {''title'', ''_id'', ''_c''}"
proof -
  have run: "schema_build sample_types
       (sample_schema ''Post'' [(''title'', FString), (''gone'', FString), (''views'', FNumber)])
       [(''title'', JStr ''Hello''), (''gone'', JUndefined), (''extra'', JNum 1),
        (''_id'', JStr ''p1''), (''_c'', JNum 5)] False False False
     = ([(''title'', JStr ''Hello''), (''gone'', JUndefined), (''extra'', JNum 1),
         (''_id'', JStr ''p1''), (''_c'', JNum 5)],
        Inr [(''title'', JStr ''Hello''), (''_id'', JStr ''p1''), (''_c'', JNum 5)])"
    by (simp add: schema_build_def build_loop.simps call_hasOwnProperty_def
      build_field_def hasOwnProperty_def js_get_def js_set_def
        build_finish_def sample_schema_def Schema_def setModel_def schema_validateField_def
        schema_getValue_def fieldDef_def then_do_def check_def sample_types_def plain_type_def)
  from build_key_set [OF run] run show ?thesis
    by (simp add: keys_def)
qed

subsection \<open>Unset fields\<close>

text \<open>
  C7, as amended. When build returns a document, a declared field other than \<^verbatim>\<open>_id\<close>
  that is an own property of the source with the value \<^verbatim>\<open>undefined\<close> carries the
  delete marker in the document if \<^verbatim>\<open>includeDeletes\<close> is set, and is no key of the
  document otherwise.
\<close>

theorem build_unset_field:
  assumes "schema_build T S object removeId includeDeletes cleanRefs = (object', Inr doc)"
    and "key \<in> fst ` set (s_fieldDefs S)"
    and "key \<noteq> ''_id''"
    and "hasOwnProperty object key"
    and "js_get object key = JUndefined"
  shows "if includeDeletes then map_of doc key = Some JDelete else key \<notin> keys doc"
proof -
  from assms(1) obtain ret where
    loop: "build_loop T S includeDeletes cleanRefs (map fst (s_fieldDefs S)) object [] = (object', Inr ret)"
    and doc: "doc = build_finish removeId object' ret"
    by (rule schema_build_Inr)
  have undef: "map_of object key = Some JUndefined"
    using assms(4,5) by (auto simp: hasOwnProperty_def js_get_def)
  have "map_of object' key = map_of object key"
    using build_loop_frame [OF loop, of key] assms(5) by auto
  then have after: "js_get object' key = JUndefined"
    using assms(5) by (simp add: js_get_def)
  show ?thesis
  proof (cases includeDeletes)
    case True
    have loop': "build_loop T S True cleanRefs (map fst (s_fieldDefs S)) object [] = (object', Inr ret)"
      using loop True by simp
    have "key \<in> set (map fst (s_fieldDefs S)) \<or> map_of [] key = Some JDelete"
      using assms(2) by simp
    from build_loop_delete_marker [OF loop' undef this]
    have "map_of ret key = Some JDelete" .
    then have "map_of doc key = Some JDelete"
      unfolding doc using assms(3) after by (simp add: map_of_build_finish)
    with True show ?thesis by simp
  next
    case False
    have "key \<notin> keys ret"
      using build_loop_keys [OF loop] assms(5) False by (simp add: keys_def)
    then have "key \<notin> keys doc"
      unfolding doc keys_build_finish using assms(3) after by auto
    with False show ?thesis by simp
  qed
qed

text \<open>
  A declared \<^verbatim>\<open>_id\<close> that is explicitly unset: the statement after the loop copies
  the source's \<^verbatim>\<open>_id\<close> over the delete marker, and it creates the key when
  \<^verbatim>\<open>includeDeletes\<close> is false.
\<close>

theorem build_unset_field_counterexample:
  "hasOwnProperty [(''_id'', JUndefined)] ''_id''
   \<and> js_get [(''_id'', JUndefined)] ''_id'' = JUndefined
   \<and> schema_build sample_types (sample_schema ''Post'' [(''_id'', FString)])
        [(''_id'', JUndefined)] False True False
      = ([(''_id'', JUndefined)], Inr [(''_id'', JUndefined)])
   \<and> js_get [(''_id'', JUndefined)] ''_id'' \<noteq> JDelete
   \<and> schema_build sample_types (sample_schema ''Post'' [(''_id'', FString)])
        [(''_id'', JUndefined)] False False False
      = ([(''_id'', JUndefined)], Inr [(''_id'', JUndefined)])
   \<and> ''_id'' \<in> keys [(''_id'', JUndefined)]"
  by (simp add: schema_build_def build_loop.simps call_hasOwnProperty_def
      build_field_def hasOwnProperty_def js_get_def js_set_def
      build_finish_def sample_schema_def Schema_def setModel_def keys_def)

text \<open>An unset title becomes the delete marker.\<close>

theorem build_unset_field_witness:
  "schema_build sample_types (sample_schema ''Post'' [(''title'', FString)])
       [(''title'', JUndefined), (''_id'', JStr ''p1'')] False True False
     = ([(''title'', JUndefined), (''_id'', JStr ''p1'')],
        Inr [(''title'', JDelete), (''_id'', JStr ''p1'')])
   \<and> ''title'' \<in> fst ` set (s_fieldDefs (sample_schema ''Post'' [(''title'', FString)]))
   \<and> ''title'' \<noteq> ''_id''
   \<and> hasOwnProperty [(''title'', JUndefined), (''_id'', JStr ''p1'')] ''title''
   \<and> js_get [(''title'', JUndefined), (''_id'', JStr ''p1'')] ''title'' = JUndefined
   \<and> map_of [(''title'', JDelete), (''_id'', JStr ''p1'')] ''title'' = Some JDelete"
proof -
  have run: "schema_build sample_types (sample_schema ''Post'' [(''title'', FString)])
       [(''title'', JUndefined), (''_id'', JStr ''p1'')] False True False
     = ([(''title'', JUndefined), (''_id'', JStr ''p1'')],
        Inr [(''title'', JDelete), (''_id'', JStr ''p1'')])"
    by (simp add: schema_build_def build_loop.simps call_hasOwnProperty_def
      build_field_def hasOwnProperty_def js_get_def js_set_def
        build_finish_def sample_schema_def Schema_def setModel_def)
  have decl: "''title'' \<in> fst ` set (s_fieldDefs (sample_schema ''Post'' [(''title'', FString)]))"
    by (simp add: sample_schema_def Schema_def setModel_def)
  have ne: "''title'' \<noteq> ''_id''" by simp
  have own: "hasOwnProperty [(''title'', JUndefined), (''_id'', JStr ''p1'')] ''title''"
    by (simp add: hasOwnProperty_def)
  have undef: "js_get [(''title'', JUndefined), (''_id'', JStr ''p1'')] ''title'' = JUndefined"
    by (simp add: js_get_def)
  from build_unset_field [OF run decl ne own undef] run decl own undef
  show ?thesis by simp
qed

subsection \<open>The source object after a failure\<close>

lemma map_of_own:
  "hasOwnProperty object k \<Longrightarrow> map_of object k = Some (js_get object k)"
  by (auto simp: hasOwnProperty_def js_get_def)

lemma js_set_same:
  assumes "hasOwnProperty object key"
  shows "js_set object key (js_get object key) = object"
  using assms by (auto simp: js_set_def js_get_def hasOwnProperty_def intro: update_triv)

lemma schema_depopulate_value:
  assumes "hasOwnProperty object key"
  shows "schema_depopulate S key object =
     (case depopulated (fieldDef (s_fieldDefs S) key) (js_get object key) of
        Inl e \<Rightarrow> Inl e
      | Inr c \<Rightarrow> Inr (js_set object key c))"
proof (cases "(fieldDef (s_fieldDefs S) key, js_get object key)" rule: depopulated.cases)
  case (1 ks v)
  then show ?thesis
    using js_set_same [OF assms]
    by (auto simp: schema_depopulate_def then_do_def split: sum.splits)
next
  case (2 ks ds v)
  then show ?thesis
    using js_set_same [OF assms]
    by (auto simp: schema_depopulate_def then_do_def split: sum.splits)
qed (use js_set_same [OF assms] in \<open>auto simp: schema_depopulate_def then_do_def\<close>)

lemma depopulated_changes:
  assumes "depopulated d v = Inr c" and "c \<noteq> v"
  shows "(\<exists>ks. d = FObject ks \<and> ''ref'' \<in> set ks)
     \<or> (\<exists>ks ds. d = FArray (FObject ks # ds) \<and> ''ref'' \<in> set ks)"
  using assms by (cases "(d, v)" rule: depopulated.cases) (auto split: if_splits)

lemma build_field_value:
  assumes "build_field T S True key object = (object', r)"
    and "hasOwnProperty object key"
  shows "(object' = object \<and> (\<exists>e. r = Inl e))
     \<or> (\<exists>c. depopulated (fieldDef (s_fieldDefs S) key) (js_get object key) = Inr c
           \<and> object' = js_set object key c)"
  using assms
  by (auto simp: build_field_def schema_depopulate_value split: sum.splits)

lemma build_loop_fails_at:
  assumes "build_loop T S incl clean ks object ret = (object', Inl e)"
  shows "\<exists>before key after object1 ret1.
      ks = before @ key # after
      \<and> build_loop T S incl clean before object ret = (object1, Inr ret1)
      \<and> build_loop T S incl clean [key] object1 ret1 = (object', Inl e)"
  using assms
proof (induction ks arbitrary: object ret)
  case Nil
  then show ?case by simp
next
  case (Cons k ks)
  obtain o1 r1 where one: "build_loop T S incl clean [k] object ret = (o1, r1)"
    by (cases "build_loop T S incl clean [k] object ret")
  have split: "build_loop T S incl clean (k # ks) object ret =
      (case build_loop T S incl clean [k] object ret of
         (object', Inl e) \<Rightarrow> (object', Inl e)
       | (object', Inr ret') \<Rightarrow> build_loop T S incl clean ks object' ret')"
    using build_loop_append [of T S incl clean "[k]" ks object ret] by simp
  show ?case
  proof (cases r1)
    case (Inl e1)
    with one split Cons.prems have "build_loop T S incl clean [k] object ret = (object', Inl e)"
      by simp
    then have "k # ks = [] @ k # ks
      \<and> build_loop T S incl clean [] object ret = (object, Inr ret)
      \<and> build_loop T S incl clean [k] object ret = (object', Inl e)" by simp
    then show ?thesis by blast
  next
    case (Inr ret1)
    with one split Cons.prems have "build_loop T S incl clean ks o1 ret1 = (object', Inl e)"
      by simp
    from Cons.IH [OF this] obtain before key after object2 ret2 where
      ks: "ks = before @ key # after"
      and b: "build_loop T S incl clean before o1 ret1 = (object2, Inr ret2)"
      and f: "build_loop T S incl clean [key] object2 ret2 = (object', Inl e)" by blast
    have "build_loop T S incl clean (k # before) object ret = (object2, Inr ret2)"
      using build_loop_append [of T S incl clean "[k]" before object ret] one Inr b by simp
    with ks f have "k # ks = (k # before) @ key # after
      \<and> build_loop T S incl clean (k # before) object ret = (object2, Inr ret2)
      \<and> build_loop T S incl clean [key] object2 ret2 = (object', Inl e)" by simp
    then show ?thesis by blast
  qed
qed

lemma build_loop_one:
  assumes "build_loop T S incl True [key] object ret = (object', r)"
  shows "object' = object
     \<or> (hasOwnProperty object key \<and> js_get object key \<noteq> JUndefined
        \<and> (\<exists>c. depopulated (fieldDef (s_fieldDefs S) key) (js_get object key) = Inr c
              \<and> object' = js_set object key c))"
proof (cases "hasOwnProperty object ''hasOwnProperty''")
  case True
  with assms show ?thesis by (simp add: build_loop_shadowed)
next
  case unshadowed: False
  obtain o1 r1 where bf: "build_field T S True key object = (o1, r1)"
    by (cases "build_field T S True key object")
  show ?thesis
  proof (cases "hasOwnProperty object key \<and> js_get object key \<noteq> JUndefined")
    case False
    with assms show ?thesis by (auto simp: build_loop_Cons [OF unshadowed] split: if_splits)
  next
    case True
    with assms bf have "object' = o1"
      by (cases r1) (auto simp: build_loop_Cons [OF unshadowed])
    with build_field_value [OF bf] True show ?thesis by auto
  qed
qed

lemma build_loop_visited:
  assumes "build_loop T S incl True ks object ret = (object', Inr ret')"
    and "distinct ks" and "k \<in> set ks"
    and "hasOwnProperty object k" and "js_get object k \<noteq> JUndefined"
  shows "\<exists>c. depopulated (fieldDef (s_fieldDefs S) k) (js_get object k) = Inr c
           \<and> map_of object' k = Some c"
  using assms
proof (induction ks arbitrary: object ret)
  case Nil
  then show ?case by simp
next
  case (Cons key ks)
  have split: "build_loop T S incl True (key # ks) object ret =
      (case build_loop T S incl True [key] object ret of
         (object', Inl e) \<Rightarrow> (object', Inl e)
       | (object', Inr ret') \<Rightarrow> build_loop T S incl True ks object' ret')"
    using build_loop_append [of T S incl True "[key]" ks object ret] by simp
  obtain o1 r1 where one: "build_loop T S incl True [key] object ret = (o1, r1)"
    by (cases "build_loop T S incl True [key] object ret")
  with split Cons.prems(1) obtain ret1 where r1: "r1 = Inr ret1"
    and rest: "build_loop T S incl True ks o1 ret1 = (object', Inr ret')"
    by (cases r1) auto
  show ?case
  proof (cases "key = k")
    case True
    with Cons.prems(2) have notin: "k \<notin> set ks" by simp
    have stays: "map_of object' k = map_of o1 k"
      using build_loop_frame [OF rest, of k] notin by simp
    from build_loop_one [OF one] True
    consider (same) "o1 = object"
      | (set) c where "depopulated (fieldDef (s_fieldDefs S) k) (js_get object k) = Inr c"
          "o1 = js_set object k c"
      by blast
    then show ?thesis
    proof cases
      case set
      with stays show ?thesis by (simp add: map_of_js_set)
    next
      case same
      have unshadowed: "\<not> hasOwnProperty object ''hasOwnProperty''"
        using one r1 by (auto simp: build_loop_shadowed)
      obtain o2 r2 where bf: "build_field T S True k object = (o2, r2)"
        by (cases "build_field T S True k object")
      from one r1 True Cons.prems(4,5) bf have o2: "o2 = o1" and "\<exists>v. r2 = Inr v"
        by (cases r2; simp add: build_loop_Cons [OF unshadowed])+
      with build_field_value [OF bf Cons.prems(4)] obtain c
        where c: "depopulated (fieldDef (s_fieldDefs S) k) (js_get object k) = Inr c"
          and "o2 = js_set object k c" by auto
      with o2 stays show ?thesis by (auto simp: map_of_js_set)
    qed
  next
    case False
    with Cons.prems(3) have later: "k \<in> set ks" by simp
    from Cons.prems(2) have dist: "distinct ks" by simp
    have "map_of o1 k = map_of object k"
      using build_loop_frame [OF one, of k] False by simp
    then have "hasOwnProperty o1 k" and "js_get o1 k = js_get object k"
      using Cons.prems(4) by (simp_all add: hasOwnProperty_def js_get_def)
    with Cons.IH [OF rest dist later] Cons.prems(5) show ?thesis by simp
  qed
qed

text \<open>
  C5, as amended. A build that fails returns no document. It leaves the source object
  as it was when \<^verbatim>\<open>cleanRefs\<close> is false, and it never changes a property that no
  definition declares. With \<^verbatim>\<open>cleanRefs\<close> set and a field-definition map of distinct
  keys, the build fails at one declared key, and the source then differs from what it
  was only at fields declared as a reference or as an array of references, own and
  defined properties visited up to that key: each such field declared before the failing
  key holds its collapsed value, the failing key holds its collapsed value or what it
  held, and every other property, a field declared as text, number or anything else
  and every field declared after the failing key among them, is as it was.
\<close>

theorem build_failure_source:
  assumes "schema_build T S object removeId includeDeletes cleanRefs = (object', Inl e)"
  shows "(\<not> cleanRefs \<longrightarrow> object' = object)
     \<and> (\<forall>k. k \<notin> fst ` set (s_fieldDefs S) \<longrightarrow> map_of object' k = map_of object k)
     \<and> (distinct (map fst (s_fieldDefs S)) \<longrightarrow>
        (\<exists>before key after object1 ret1.
           map fst (s_fieldDefs S) = before @ key # after
           \<and> build_loop T S includeDeletes cleanRefs before object [] = (object1, Inr ret1)
           \<and> build_loop T S includeDeletes cleanRefs [key] object1 ret1 = (object', Inl e)
           \<and> (\<forall>k \<in> set before.
                 cleanRefs \<and> hasOwnProperty object k \<and> js_get object k \<noteq> JUndefined \<longrightarrow>
                 (\<exists>c. depopulated (fieldDef (s_fieldDefs S) k) (js_get object k) = Inr c
                    \<and> map_of object' k = Some c))
           \<and> (map_of object' key = map_of object key
               \<or> (\<exists>c. depopulated (fieldDef (s_fieldDefs S) key) (js_get object key) = Inr c
                    \<and> map_of object' key = Some c))
           \<and> (\<forall>k. map_of object' k \<noteq> map_of object k \<longrightarrow>
                 cleanRefs \<and> k \<in> set (before @ [key])
                 \<and> hasOwnProperty object k \<and> js_get object k \<noteq> JUndefined
                 \<and> ((\<exists>ks. fieldDef (s_fieldDefs S) k = FObject ks \<and> ''ref'' \<in> set ks)
                    \<or> (\<exists>ks ds. fieldDef (s_fieldDefs S) k = FArray (FObject ks # ds)
                          \<and> ''ref'' \<in> set ks)))))"
proof -
  have loop: "build_loop T S includeDeletes cleanRefs (map fst (s_fieldDefs S)) object []
      = (object', Inl e)"
    using assms by (rule schema_build_Inl)
  have unchanged: "object' = object" if "\<not> cleanRefs"
    using loop build_loop_clean_False [of T S includeDeletes "map fst (s_fieldDefs S)" object "[]"] that
    by simp
  have undeclared: "map_of object' k = map_of object k" if "k \<notin> fst ` set (s_fieldDefs S)" for k
    using build_loop_frame [OF loop, of k] that by auto
  have visited: "\<exists>before key after object1 ret1.
           map fst (s_fieldDefs S) = before @ key # after
           \<and> build_loop T S includeDeletes cleanRefs before object [] = (object1, Inr ret1)
           \<and> build_loop T S includeDeletes cleanRefs [key] object1 ret1 = (object', Inl e)
           \<and> (\<forall>k \<in> set before.
                 cleanRefs \<and> hasOwnProperty object k \<and> js_get object k \<noteq> JUndefined \<longrightarrow>
                 (\<exists>c. depopulated (fieldDef (s_fieldDefs S) k) (js_get object k) = Inr c
                    \<and> map_of object' k = Some c))
           \<and> (map_of object' key = map_of object key
               \<or> (\<exists>c. depopulated (fieldDef (s_fieldDefs S) key) (js_get object key) = Inr c
                    \<and> map_of object' key = Some c))
           \<and> (\<forall>k. map_of object' k \<noteq> map_of object k \<longrightarrow>
                 cleanRefs \<and> k \<in> set (before @ [key])
                 \<and> hasOwnProperty object k \<and> js_get object k \<noteq> JUndefined
                 \<and> ((\<exists>ks. fieldDef (s_fieldDefs S) k = FObject ks \<and> ''ref'' \<in> set ks)
                    \<or> (\<exists>ks ds. fieldDef (s_fieldDefs S) k = FArray (FObject ks # ds)
                          \<and> ''ref'' \<in> set ks)))"
    if dist: "distinct (map fst (s_fieldDefs S))"
  proof -
    from build_loop_fails_at [OF loop] obtain before key after object1 ret1 where
      order: "map fst (s_fieldDefs S) = before @ key # after"
      and b: "build_loop T S includeDeletes cleanRefs before object [] = (object1, Inr ret1)"
      and f: "build_loop T S includeDeletes cleanRefs [key] object1 ret1 = (object', Inl e)"
      by blast
    from dist order have db: "distinct before" and kb: "key \<notin> set before"
      and ka: "key \<notin> set after" and ba: "set before \<inter> set after = {}"
      by auto
    have step_other: "map_of object' k = map_of object1 k" if "k \<noteq> key" for k
      using build_loop_frame [OF f, of k] that by auto
    have before_other: "map_of object1 k = map_of object k" if "k \<notin> set before" for k
      using build_loop_frame [OF b, of k] that by auto
    have one: "\<exists>c. depopulated (fieldDef (s_fieldDefs S) k) (js_get object k) = Inr c
          \<and> map_of object' k = Some c"
      if "k \<in> set before" and "cleanRefs" and "hasOwnProperty object k"
        and "js_get object k \<noteq> JUndefined" for k
    proof -
      from b that(2) have "build_loop T S includeDeletes True before object [] = (object1, Inr ret1)"
        by simp
      from build_loop_visited [OF this db that(1,3,4)] obtain c where
        "depopulated (fieldDef (s_fieldDefs S) k) (js_get object k) = Inr c"
        and "map_of object1 k = Some c" by blast
      moreover have "k \<noteq> key" using that(1) kb by auto
      ultimately show ?thesis using step_other by auto
    qed
    have key1: "map_of object1 key = map_of object key"
      using before_other kb by simp
    have two: "map_of object' key = map_of object key
        \<or> (cleanRefs \<and> hasOwnProperty object key \<and> js_get object key \<noteq> JUndefined
           \<and> (\<exists>c. depopulated (fieldDef (s_fieldDefs S) key) (js_get object key) = Inr c
                 \<and> map_of object' key = Some c))"
    proof (cases cleanRefs)
      case False
      with unchanged show ?thesis by simp
    next
      case True
      with f have "build_loop T S includeDeletes True [key] object1 ret1 = (object', Inl e)"
        by simp
      from build_loop_one [OF this] key1 True show ?thesis
        by (auto simp: map_of_js_set hasOwnProperty_def js_get_def)
    qed
    have three: "cleanRefs \<and> k \<in> set (before @ [key])
          \<and> hasOwnProperty object k \<and> js_get object k \<noteq> JUndefined
          \<and> ((\<exists>ks. fieldDef (s_fieldDefs S) k = FObject ks \<and> ''ref'' \<in> set ks)
             \<or> (\<exists>ks ds. fieldDef (s_fieldDefs S) k = FArray (FObject ks # ds)
                   \<and> ''ref'' \<in> set ks))"
      if changed: "map_of object' k \<noteq> map_of object k" for k
    proof -
      from build_loop_frame [OF loop, of k] changed
      have clean: cleanRefs and own: "hasOwnProperty object k"
        and defined: "js_get object k \<noteq> JUndefined" by auto
      have here: "k \<in> set (before @ [key])"
      proof (rule ccontr)
        assume "k \<notin> set (before @ [key])"
        then have "k \<noteq> key" and "k \<notin> set before" by auto
        with step_other before_other changed show False by simp
      qed
      have "\<exists>c. depopulated (fieldDef (s_fieldDefs S) k) (js_get object k) = Inr c
          \<and> map_of object' k = Some c"
      proof (cases "k = key")
        case True
        with two changed show ?thesis by auto
      next
        case False
        with here have "k \<in> set before" by simp
        from one [OF this clean own defined] show ?thesis .
      qed
      then obtain c where c: "depopulated (fieldDef (s_fieldDefs S) k) (js_get object k) = Inr c"
        and v: "map_of object' k = Some c" by blast
      from v changed map_of_own [OF own] have "c \<noteq> js_get object k" by auto
      from depopulated_changes [OF c this] clean here own defined show ?thesis by simp
    qed
    from order b f one two three show ?thesis by blast
  qed
  from unchanged undeclared visited show ?thesis by blast
qed

text \<open>
  With \<^verbatim>\<open>cleanRefs\<close> set, the failed build below has replaced the owner document of
  the source by its identity before the title fails.
\<close>

theorem build_failure_source_counterexample:
  "schema_build sample_types
       (sample_schema ''Post'' [(''owner'', FObject [''ref'']), (''title'', FString)])
       [(''owner'', JObj [(''_id'', JStr ''u1'')]), (''title'', JNum 5)] False False True
     = ([(''owner'', JStr ''u1''), (''title'', JNum 5)],
        Inl (Error (processing_text ''Post''
               (invalid_text ''Post'' ''title'' ''String'' (JNum 5)))))
   \<and> [(''owner'', JStr ''u1''), (''title'', JNum 5)]
     \<noteq> [(''owner'', JObj [(''_id'', JStr ''u1'')]), (''title'', JNum 5)]"
  by (simp add: schema_build_def build_loop.simps call_hasOwnProperty_def
      build_field_def hasOwnProperty_def js_get_def js_set_def
      sample_schema_def Schema_def setModel_def schema_validateField_def
      schema_getValue_def fieldDef_def then_do_def check_def sample_types_def plain_type_def
      schema_depopulate_def collapse_def rethrow_def invalid_def owner_name_def
      sample_model_def)

text \<open>
  A failing build without \<^verbatim>\<open>cleanRefs\<close> and its untouched source; with
  \<^verbatim>\<open>cleanRefs\<close>, the title of the source that the counterexample builds from.
\<close>

theorem build_failure_source_witness:
  "schema_build sample_types
       (sample_schema ''Post'' [(''owner'', FObject [''ref'']), (''title'', FString)])
       [(''owner'', JObj [(''_id'', JStr ''u1'')]), (''title'', JNum 5)] False False False
     = ([(''owner'', JObj [(''_id'', JStr ''u1'')]), (''title'', JNum 5)],
        Inl (Error (processing_text ''Post''
               (invalid_text ''Post'' ''owner'' ''Document ID'' (JObj [(''_id'', JStr ''u1'')])))))
   \<and> distinct (map fst (s_fieldDefs
         (sample_schema ''Post'' [(''owner'', FObject [''ref'']), (''title'', FString)])))
   \<and> map_of (fst (schema_build sample_types
         (sample_schema ''Post'' [(''owner'', FObject [''ref'']), (''title'', FString)])
         [(''owner'', JObj [(''_id'', JStr ''u1'')]), (''title'', JNum 5)] False False True))
       ''title''
     = map_of [(''owner'', JObj [(''_id'', JStr ''u1'')]), (''title'', JNum 5)] ''title''"
proof -
  let ?S = "sample_schema ''Post'' [(''owner'', FObject [''ref'']), (''title'', FString)]"
  let ?object = "[(''owner'', JObj [(''_id'', JStr ''u1'')]), (''title'', JNum 5)]"
  obtain object' r where run: "schema_build sample_types ?S ?object False False False
     = (object', r)"
    by (cases "schema_build sample_types ?S ?object False False False")
  have r: "r = Inl (Error (processing_text ''Post''
               (invalid_text ''Post'' ''owner'' ''Document ID'' (JObj [(''_id'', JStr ''u1'')]))))"
    using run
    by (simp add: schema_build_def build_loop.simps call_hasOwnProperty_def
      build_field_def hasOwnProperty_def js_get_def js_set_def
      sample_schema_def Schema_def setModel_def schema_validateField_def
      schema_getValue_def fieldDef_def then_do_def check_def sample_types_def plain_type_def
      rethrow_def invalid_def owner_name_def sample_model_def)
  from build_failure_source [OF run [unfolded r]] have "object' = ?object"
    by simp
  with run r have first: "schema_build sample_types ?S ?object False False False
     = (?object, Inl (Error (processing_text ''Post''
               (invalid_text ''Post'' ''owner'' ''Document ID'' (JObj [(''_id'', JStr ''u1'')])))))"
    by simp
  have dist: "distinct (map fst (s_fieldDefs ?S))"
    by (simp add: sample_schema_def Schema_def setModel_def)
  have title: "fieldDef (s_fieldDefs ?S) ''title'' = FString"
    by (simp add: sample_schema_def Schema_def setModel_def fieldDef_def)
  have run2: "schema_build sample_types ?S ?object False False True
     = ([(''owner'', JStr ''u1''), (''title'', JNum 5)],
        Inl (Error (processing_text ''Post''
               (invalid_text ''Post'' ''title'' ''String'' (JNum 5)))))"
    by (simp add: schema_build_def build_loop.simps call_hasOwnProperty_def
      build_field_def hasOwnProperty_def js_get_def js_set_def
      sample_schema_def Schema_def setModel_def schema_validateField_def
      schema_getValue_def fieldDef_def then_do_def check_def sample_types_def plain_type_def
      schema_depopulate_def collapse_def rethrow_def invalid_def owner_name_def
      sample_model_def)
  have "map_of [(''owner'', JStr ''u1''), (''title'', JNum 5)] ''title'' = map_of ?object ''title''"
  proof (rule ccontr)
    assume changed: "map_of [(''owner'', JStr ''u1''), (''title'', JNum 5)] ''title''
        \<noteq> map_of ?object ''title''"
    from build_failure_source [OF run2] dist
    have "\<forall>k. map_of [(''owner'', JStr ''u1''), (''title'', JNum 5)] k \<noteq> map_of ?object k \<longrightarrow>
        (\<exists>ks. fieldDef (s_fieldDefs ?S) k = FObject ks \<and> ''ref'' \<in> set ks)
        \<or> (\<exists>ks ds. fieldDef (s_fieldDefs ?S) k = FArray (FObject ks # ds) \<and> ''ref'' \<in> set ks)"
      by blast
    with changed title show False by auto
  qed
  with first dist run2 show ?thesis by simp
qed

subsection \<open>Validation failures\<close>

lemma js_get_js_set: "js_get (js_set object key v) k = (if k = key then v else js_get object k)"
  by (simp add: js_get_def map_of_js_set)







subsection \<open>Collapsing a null reference\<close>

lemma collapse_all_null:
  assumes "JNull \<in> set xs"
  shows "\<exists>e. collapse_all xs acc = Inl e"
  using assms
proof (induction xs arbitrary: acc)
  case Nil
  then show ?case by simp
next
  case (Cons x xs)
  show ?case
  proof (cases "collapse x")
    case (Inl e)
    then show ?thesis by (simp add: then_do_def)
  next
    case (Inr c)
    then have "x \<noteq> JNull" by (auto simp: collapse_def)
    with Cons.prems have "JNull \<in> set xs" by auto
    from Cons.IH [OF this] Inr show ?thesis by (simp add: then_do_def)
  qed
qed

lemma depopulate_null:
  assumes "map_of (s_fieldDefs S) key = Some d"
    and "(\<exists>ks. d = FObject ks \<and> ''ref'' \<in> set ks \<and> js_get object key = JNull)
       \<or> (\<exists>ks ds xs. d = FArray (FObject ks # ds) \<and> ''ref'' \<in> set ks
             \<and> js_get object key = JArr xs \<and> JNull \<in> set xs)"
  shows "\<exists>e. schema_depopulate S key object = Inl e"
  using assms(2)
proof (elim disjE exE conjE)
  fix ks
  assume "d = FObject ks" "''ref'' \<in> set ks" "js_get object key = JNull"
  with assms(1) show ?thesis
    by (simp add: schema_depopulate_def fieldDef_def then_do_def collapse_def)
next
  fix ks ds xs
  assume d: "d = FArray (FObject ks # ds)" "''ref'' \<in> set ks"
    and v: "js_get object key = JArr xs" and n: "JNull \<in> set xs"
  from collapse_all_null [OF n, of "[]"] obtain e where "collapse_all xs [] = Inl e" ..
  with assms(1) d v show ?thesis
    by (simp add: schema_depopulate_def fieldDef_def then_do_def)
qed

lemma build_field_own:
  assumes "build_field T S cleanRefs key object = (object', r)"
    and "hasOwnProperty object key"
  shows "hasOwnProperty object' k = hasOwnProperty object k"
  using build_field_frame [OF assms(1)] assms(2)
  by (auto simp: hasOwnProperty_def map_of_js_set split: if_splits)

lemma rethrow_wrapped:
  "s_model S = Some M \<longrightarrow> (\<exists>inner. rethrow S e = Error (processing_text (modelName M) inner))"
  by (auto simp: rethrow_def owner_name_def)

lemma build_loop_null:
  assumes "map_of (s_fieldDefs S) key = Some d"
    and "(\<exists>ks. d = FObject ks \<and> ''ref'' \<in> set ks \<and> js_get object key = JNull)
       \<or> (\<exists>ks ds xs. d = FArray (FObject ks # ds) \<and> ''ref'' \<in> set ks
             \<and> js_get object key = JArr xs \<and> JNull \<in> set xs)"
    and "key \<in> set todo"
  shows "\<exists>object' e. build_loop T S includeDeletes True todo object ret = (object', Inl e)
           \<and> (s_model S = Some M \<and> \<not> hasOwnProperty object ''hasOwnProperty'' \<longrightarrow>
                (\<exists>inner. e = Error (processing_text (modelName M) inner)))"
  using assms(2,3)
proof (induction todo arbitrary: object ret)
  case Nil
  then show ?case by simp
next
  case (Cons k ks)
  have defined: "js_get object key \<noteq> JUndefined" and own: "hasOwnProperty object key"
    using Cons.prems(1) by (auto simp: hasOwnProperty_def js_get_def split: option.splits)
  show ?case
  proof (cases "hasOwnProperty object ''hasOwnProperty''")
    case True
    then show ?thesis by (simp add: build_loop_shadowed)
  next
    case unshadowed: False
    note [simp] = build_loop_Cons [OF unshadowed]
    show ?thesis
    proof (cases "k = key")
      case True
      from depopulate_null [OF assms(1) Cons.prems(1)] obtain e
        where "schema_depopulate S key object = Inl e" ..
      then have "build_field T S True key object = (object, Inl e)"
        by (simp add: build_field_def)
      with True defined own rethrow_wrapped [of S M e] show ?thesis by auto
    next
      case False
      with Cons.prems(2) have later: "key \<in> set ks" by simp
      show ?thesis
      proof (cases "hasOwnProperty object k \<and> js_get object k = JUndefined \<and> includeDeletes")
        case True
        with Cons.IH [OF Cons.prems(1) later, of "js_set ret k JDelete"] unshadowed
        show ?thesis by simp
      next
        case nodel: False
        show ?thesis
        proof (cases "hasOwnProperty object k \<and> js_get object k \<noteq> JUndefined")
          case False
          with nodel Cons.IH [OF Cons.prems(1) later, of ret] unshadowed show ?thesis by auto
        next
          case True
          obtain object1 r1 where bf: "build_field T S True k object = (object1, r1)"
            by (cases "build_field T S True k object")
          have same: "js_get object1 key = js_get object key"
            using build_field_frame [OF bf] False by (auto simp: js_get_js_set)
          have unshadowed1: "\<not> hasOwnProperty object1 ''hasOwnProperty''"
            using build_field_own [OF bf, of "''hasOwnProperty''"] True unshadowed by simp
          show ?thesis
          proof (cases r1)
            case (Inl e)
            with nodel True bf rethrow_wrapped [of S M e] show ?thesis by auto
          next
            case (Inr v)
            from Cons.prems(1) same
            have "(\<exists>ks. d = FObject ks \<and> ''ref'' \<in> set ks \<and> js_get object1 key = JNull)
       \<or> (\<exists>ks ds xs. d = FArray (FObject ks # ds) \<and> ''ref'' \<in> set ks
             \<and> js_get object1 key = JArr xs \<and> JNull \<in> set xs)" by simp
            from Cons.IH [OF this later, of "js_set ret k v"] Inr nodel True bf
              unshadowed unshadowed1
            show ?thesis by simp
          qed
        qed
      qed
    qed
  qed
qed

text \<open>
  C10. With \<^verbatim>\<open>cleanRefs\<close> set, build raises an error, and returns no document, for
  every source whose field declared as a reference holds \<^verbatim>\<open>null\<close>, or whose field
  declared as an array of references holds an array with a \<^verbatim>\<open>null\<close> element:
  reference collapsing takes \<^verbatim>\<open>null\<close> for a structured value, as its \<^verbatim>\<open>typeof\<close>
  is \<^verbatim>\<open>'object'\<close>, and reading its \<^verbatim>\<open>_id\<close> throws. With a model attached, and
  a source without an own property \<^verbatim>\<open>hasOwnProperty\<close>, the error is the build
  failure with the processing text.
\<close>

theorem build_null_reference:
  assumes "map_of (s_fieldDefs S) key = Some d"
    and "(\<exists>ks. d = FObject ks \<and> ''ref'' \<in> set ks \<and> js_get object key = JNull)
       \<or> (\<exists>ks ds xs. d = FArray (FObject ks # ds) \<and> ''ref'' \<in> set ks
             \<and> js_get object key = JArr xs \<and> JNull \<in> set xs)"
  shows "(\<exists>e. snd (schema_build T S object removeId includeDeletes True) = Inl e)
     \<and> (s_model S = Some M \<and> \<not> hasOwnProperty object ''hasOwnProperty'' \<longrightarrow>
          (\<exists>inner. snd (schema_build T S object removeId includeDeletes True)
             = Inl (Error (processing_text (modelName M) inner))))
     \<and> typeof_object JNull
     \<and> collapse JNull = Inl (TypeError ''Cannot read properties of null (reading '_id')'')"
proof -
  have "key \<in> set (map fst (s_fieldDefs S))"
    using assms(1) by (metis map_of_SomeD fst_conv image_eqI set_map)
  from build_loop_null [OF assms this, of T includeDeletes "[]" M]
  obtain object' e where
    loop: "build_loop T S includeDeletes True (map fst (s_fieldDefs S)) object [] = (object', Inl e)"
    and wrapped: "s_model S = Some M \<and> \<not> hasOwnProperty object ''hasOwnProperty'' \<longrightarrow>
        (\<exists>inner. e = Error (processing_text (modelName M) inner))"
    by blast
  from loop have "snd (schema_build T S object removeId includeDeletes True) = Inl e"
    by (simp add: schema_build_def)
  with wrapped show ?thesis by (auto simp: collapse_def)
qed

text \<open>
  A \<^verbatim>\<open>null\<close> among the tags, a \<^verbatim>\<open>null\<close> owner, and a \<^verbatim>\<open>null\<close> owner in a
  source that hides \<^verbatim>\<open>hasOwnProperty\<close>.
\<close>

theorem build_null_reference_witness:
  "snd (schema_build sample_types
          (sample_schema ''Post'' [(''owner'', FObject [''ref'']), (''tags'', FArray [FObject [''ref'']])])
          [(''owner'', JStr ''u1''), (''tags'', JArr [JStr ''t1'', JNull])] False False True)
     = Inl (Error (processing_text ''Post'' ''Cannot read properties of null (reading '_id')''))
   \<and> snd (schema_build sample_types
          (sample_schema ''Post'' [(''owner'', FObject [''ref''])])
          [(''owner'', JNull)] False False True)
     = Inl (Error (processing_text ''Post'' ''Cannot read properties of null (reading '_id')''))
   \<and> snd (schema_build sample_types
          (sample_schema ''Post'' [(''owner'', FObject [''ref''])])
          [(''hasOwnProperty'', JNum 1), (''owner'', JNull)] False False True)
     = Inl (TypeError ''object.hasOwnProperty is not a function'')"
proof -
  let ?defs = "[(''owner'', FObject [''ref'']), (''tags'', FArray [FObject [''ref'']])]"
  let ?object = "[(''owner'', JStr ''u1''), (''tags'', JArr [JStr ''t1'', JNull])]"
  let ?defs1 = "[(''owner'', FObject [''ref''])]"
  have m: "s_model (sample_schema ''Post'' ?defs) = Some (sample_model ''Post'' ?defs)"
    by (simp add: sample_schema_def setModel_def)
  have d: "map_of (s_fieldDefs (sample_schema ''Post'' ?defs)) ''tags''
      = Some (FArray [FObject [''ref'']])"
    by (simp add: sample_schema_def setModel_def Schema_def)
  have n: "(\<exists>ks. FArray [FObject [''ref'']] = FObject ks \<and> ''ref'' \<in> set ks
              \<and> js_get ?object ''tags'' = JNull)
       \<or> (\<exists>ks ds xs. FArray [FObject [''ref'']] = FArray (FObject ks # ds) \<and> ''ref'' \<in> set ks
             \<and> js_get ?object ''tags'' = JArr xs \<and> JNull \<in> set xs)"
    by (simp add: js_get_def)
  have m1: "s_model (sample_schema ''Post'' ?defs1) = Some (sample_model ''Post'' ?defs1)"
    by (simp add: sample_schema_def setModel_def)
  have d1: "map_of (s_fieldDefs (sample_schema ''Post'' ?defs1)) ''owner''
      = Some (FObject [''ref''])"
    by (simp add: sample_schema_def setModel_def Schema_def)
  have n1: "(\<exists>ks. FObject [''ref''] = FObject ks \<and> ''ref'' \<in> set ks
              \<and> js_get [(''owner'', JNull)] ''owner'' = JNull)
       \<or> (\<exists>ks ds xs. FObject [''ref''] = FArray (FObject ks # ds) \<and> ''ref'' \<in> set ks
             \<and> js_get [(''owner'', JNull)] ''owner'' = JArr xs \<and> JNull \<in> set xs)"
    by (simp add: js_get_def)
  have run: "snd (schema_build sample_types (sample_schema ''Post'' ?defs) ?object False False True)
     = Inl (Error (processing_text ''Post'' ''Cannot read properties of null (reading '_id')''))"
    by (simp add: schema_build_def build_loop.simps call_hasOwnProperty_def
      build_field_def hasOwnProperty_def js_get_def js_set_def
      sample_schema_def Schema_def setModel_def schema_validateField_def
      schema_getValue_def fieldDef_def then_do_def check_def sample_types_def plain_type_def
      schema_depopulate_def collapse_def rethrow_def invalid_def owner_name_def
      sample_model_def)
  have run1: "snd (schema_build sample_types (sample_schema ''Post'' ?defs1)
          [(''owner'', JNull)] False False True)
     = Inl (Error (processing_text ''Post'' ''Cannot read properties of null (reading '_id')''))"
    by (simp add: schema_build_def build_loop.simps call_hasOwnProperty_def
      build_field_def hasOwnProperty_def js_get_def js_set_def
      sample_schema_def Schema_def setModel_def fieldDef_def then_do_def
      schema_depopulate_def collapse_def rethrow_def owner_name_def sample_model_def)
  have u: "\<not> hasOwnProperty ?object ''hasOwnProperty''"
    and u1: "\<not> hasOwnProperty [(''owner'', JNull)] ''hasOwnProperty''"
    by (simp_all add: hasOwnProperty_def)
  from build_null_reference [OF d n, where T = sample_types and removeId = False
      and includeDeletes = False and M = "sample_model ''Post'' ?defs"] m u
  obtain inner where "snd (schema_build sample_types (sample_schema ''Post'' ?defs) ?object
        False False True)
      = Inl (Error (processing_text (modelName (sample_model ''Post'' ?defs)) inner))"
    by blast
  moreover
  from build_null_reference [OF d1 n1, where T = sample_types and removeId = False
      and includeDeletes = False and M = "sample_model ''Post'' ?defs1"] m1 u1
  obtain inner1 where "snd (schema_build sample_types (sample_schema ''Post'' ?defs1)
        [(''owner'', JNull)] False False True)
      = Inl (Error (processing_text (modelName (sample_model ''Post'' ?defs1)) inner1))"
    by blast
  moreover
  have n2: "(\<exists>ks. FObject [''ref''] = FObject ks \<and> ''ref'' \<in> set ks
              \<and> js_get [(''hasOwnProperty'', JNum 1), (''owner'', JNull)] ''owner'' = JNull)
       \<or> (\<exists>ks ds xs. FObject [''ref''] = FArray (FObject ks # ds) \<and> ''ref'' \<in> set ks
             \<and> js_get [(''hasOwnProperty'', JNum 1), (''owner'', JNull)] ''owner'' = JArr xs
             \<and> JNull \<in> set xs)"
    by (simp add: js_get_def)
  from build_null_reference [OF d1 n2, where T = sample_types and removeId = False
      and includeDeletes = False and M = "sample_model ''Post'' ?defs1"]
  obtain e where raised: "snd (schema_build sample_types (sample_schema ''Post'' ?defs1)
        [(''hasOwnProperty'', JNum 1), (''owner'', JNull)] False False True) = Inl e"
    by blast
  have "snd (schema_build sample_types (sample_schema ''Post'' ?defs1)
        [(''hasOwnProperty'', JNum 1), (''owner'', JNull)] False False True)
      = Inl (TypeError ''object.hasOwnProperty is not a function'')"
    using raised
    by (simp add: schema_build_def build_loop.simps call_hasOwnProperty_def hasOwnProperty_def
        sample_schema_def Schema_def setModel_def)
  ultimately show ?thesis using run run1 by simp
qed

section \<open>Registration\<close>

lemma find_snoc:
  "List.find P (xs @ [x]) = (case List.find P xs of Some y \<Rightarrow> Some y | None \<Rightarrow> if P x then Some x else None)"
  by (induction xs) auto

lemma register_twice:
  "key_of e2 = key_of e1 \<Longrightarrow> register key_of (register key_of registry e1) e2 = register key_of registry e1"
  by (auto simp: register_def find_snoc find_None_iff split: option.splits)

lemma register_distinct:
  "distinct (map key_of registry) \<Longrightarrow> distinct (map key_of (register key_of registry e))"
  by (auto simp: register_def find_None_iff)

lemma register_all_distinct:
  "distinct (map key_of registry) \<Longrightarrow> distinct (map key_of (register_all key_of registry es))"
  by (induction es arbitrary: registry) (auto simp: register_distinct)

lemma register_prefix: "prefix registry (register key_of registry e)"
  by (simp add: register_def)

lemma register_all_prefix: "prefix registry (register_all key_of registry es)"
proof (induction es arbitrary: registry)
  case Nil
  show ?case by simp
next
  case (Cons e es)
  have "prefix registry (register key_of registry e)" by (rule register_prefix)
  also have "prefix \<dots> (register_all key_of (register key_of registry e) es)" by (rule Cons.IH)
  finally show ?case by simp
qed

lemma register_find:
  "List.find (\<lambda>e. key_of e = k) (register key_of registry e) =
     (case List.find (\<lambda>e. key_of e = k) registry of
        Some y \<Rightarrow> Some y
      | None \<Rightarrow> if key_of e = k then Some e else None)"
  by (auto simp: register_def find_snoc find_None_iff split: option.splits)

lemma register_all_find:
  "List.find (\<lambda>e. key_of e = k) (register_all key_of registry es) =
     (case List.find (\<lambda>e. key_of e = k) registry of
        Some y \<Rightarrow> Some y
      | None \<Rightarrow> List.find (\<lambda>e. key_of e = k) es)"
  by (induction es arbitrary: registry) (auto simp: register_find split: option.splits)

lemma run_populates: "s_populates (run S cs) = register_all path (s_populates S) (asked_populates cs)"
proof (induction cs arbitrary: S)
  case Nil
  show ?case by simp
next
  case (Cons c cs)
  show ?case
    by (cases c)
      (simp_all add: Cons.IH populate_def pre_def virtual_def upload_def setModel_def
        setModels_def setFirestoreInstance_def register_def)
qed

lemma run_preOps: "s_preOps (run S cs) = register_all operation (s_preOps S) (asked_preOps cs)"
proof (induction cs arbitrary: S)
  case Nil
  show ?case by simp
next
  case (Cons c cs)
  show ?case
    by (cases c)
      (simp_all add: Cons.IH populate_def pre_def virtual_def upload_def setModel_def
        setModels_def setFirestoreInstance_def register_def)
qed

lemma run_virtuals: "s_virtuals (run S cs) = register_all fieldName (s_virtuals S) (asked_virtuals cs)"
proof (induction cs arbitrary: S)
  case Nil
  show ?case by simp
next
  case (Cons c cs)
  show ?case
    by (cases c)
      (simp_all add: Cons.IH populate_def pre_def virtual_def upload_def setModel_def
        setModels_def setFirestoreInstance_def register_def)
qed

lemma run_uploads: "s_uploads (run S cs) = register_all upload_path (s_uploads S) (asked_uploads cs)"
proof (induction cs arbitrary: S)
  case Nil
  show ?case by simp
next
  case (Cons c cs)
  show ?case
    by (cases c)
      (simp_all add: Cons.IH populate_def pre_def virtual_def upload_def setModel_def
        setModels_def setFirestoreInstance_def register_def)
qed

text \<open>
  C9. For each of the four registries: a second registration under the key of the first
  changes nothing; after any run of calls on a newly constructed schema the keys of the
  registry are distinct, and the entry found under a key is the first one that the run
  asked to register under it; and no call takes an entry away, the registry before a run
  being a prefix of the registry after it.
\<close>

theorem registries_keep_first:
  fixes S :: "('cb, 'fs) schema" and cs :: "('cb, 'fs) schema_call list"
  shows "(populate (populate S d1) (d2\<lparr> path := path d1 \<rparr>) = populate S d1
      \<and> pre (pre S op c1) op c2 = pre S op c1
      \<and> virtual (virtual S name vd1) name vd2 = virtual S name vd1
      \<and> upload (upload S sp1 p) sp2 p = upload S sp1 p)
   \<and> (distinct (map path (s_populates (run (Schema defs :: ('cb, 'fs) schema) cs)))
      \<and> distinct (map operation (s_preOps (run (Schema defs :: ('cb, 'fs) schema) cs)))
      \<and> distinct (map fieldName (s_virtuals (run (Schema defs :: ('cb, 'fs) schema) cs)))
      \<and> distinct (map upload_path (s_uploads (run (Schema defs :: ('cb, 'fs) schema) cs))))
   \<and> (List.find (\<lambda>e. path e = k) (s_populates (run (Schema defs :: ('cb, 'fs) schema) cs))
        = List.find (\<lambda>e. path e = k) (asked_populates cs)
      \<and> List.find (\<lambda>e. operation e = k) (s_preOps (run (Schema defs :: ('cb, 'fs) schema) cs))
        = List.find (\<lambda>e. operation e = k) (asked_preOps cs)
      \<and> List.find (\<lambda>e. fieldName e = k) (s_virtuals (run (Schema defs :: ('cb, 'fs) schema) cs))
        = List.find (\<lambda>e. fieldName e = k) (asked_virtuals cs)
      \<and> List.find (\<lambda>e. upload_path e = k) (s_uploads (run (Schema defs :: ('cb, 'fs) schema) cs))
        = List.find (\<lambda>e. upload_path e = k) (asked_uploads cs))
   \<and> (prefix (s_populates S) (s_populates (run S cs))
      \<and> prefix (s_preOps S) (s_preOps (run S cs))
      \<and> prefix (s_virtuals S) (s_virtuals (run S cs))
      \<and> prefix (s_uploads S) (s_uploads (run S cs)))"
proof -
  have twice: "populate (populate S d1) (d2\<lparr> path := path d1 \<rparr>) = populate S d1
      \<and> pre (pre S op c1) op c2 = pre S op c1
      \<and> virtual (virtual S name vd1) name vd2 = virtual S name vd1
      \<and> upload (upload S sp1 p) sp2 p = upload S sp1 p"
    by (simp add: populate_def pre_def virtual_def upload_def find_snoc find_None_iff
        split: option.splits)
  have one: "distinct (map path (s_populates (run (Schema defs :: ('cb, 'fs) schema) cs)))
      \<and> distinct (map operation (s_preOps (run (Schema defs :: ('cb, 'fs) schema) cs)))
      \<and> distinct (map fieldName (s_virtuals (run (Schema defs :: ('cb, 'fs) schema) cs)))
      \<and> distinct (map upload_path (s_uploads (run (Schema defs :: ('cb, 'fs) schema) cs)))"
    unfolding run_populates run_preOps run_virtuals run_uploads
    by (simp add: register_all_distinct Schema_def)
  have first: "List.find (\<lambda>e. path e = k) (s_populates (run (Schema defs :: ('cb, 'fs) schema) cs))
        = List.find (\<lambda>e. path e = k) (asked_populates cs)
      \<and> List.find (\<lambda>e. operation e = k) (s_preOps (run (Schema defs :: ('cb, 'fs) schema) cs))
        = List.find (\<lambda>e. operation e = k) (asked_preOps cs)
      \<and> List.find (\<lambda>e. fieldName e = k) (s_virtuals (run (Schema defs :: ('cb, 'fs) schema) cs))
        = List.find (\<lambda>e. fieldName e = k) (asked_virtuals cs)
      \<and> List.find (\<lambda>e. upload_path e = k) (s_uploads (run (Schema defs :: ('cb, 'fs) schema) cs))
        = List.find (\<lambda>e. upload_path e = k) (asked_uploads cs)"
    unfolding run_populates run_preOps run_virtuals run_uploads
    by (simp add: register_all_find Schema_def)
  have kept: "prefix (s_populates S) (s_populates (run S cs))
      \<and> prefix (s_preOps S) (s_preOps (run S cs))
      \<and> prefix (s_virtuals S) (s_virtuals (run S cs))
      \<and> prefix (s_uploads S) (s_uploads (run S cs))"
    unfolding run_populates run_preOps run_virtuals run_uploads
    by (simp add: register_all_prefix)
  from twice one first kept show ?thesis by blast
qed

section \<open>Relationship and virtual-field resolution\<close>

lemma asyncForEach_fetch:
  "asyncForEach rs (fetch_one (Some m)) (results, calls) =
     ((results @ map (\<lambda>r. findById m r True) (filter (\<lambda>r. r \<noteq> JUndefined) rs),
       calls @ map (\<lambda>r. FindById (modelName m) r True) (filter (\<lambda>r. r \<noteq> JUndefined) rs)),
      None)"
  by (induction rs arbitrary: results calls) (simp_all add: fetch_one_def)

lemma asyncForEach_no_target:
  "asyncForEach rs (fetch_one None) st =
     (st, if \<exists>r \<in> set rs. r \<noteq> JUndefined
          then Some (TypeError ''Cannot read properties of undefined (reading 'findById')'')
          else None)"
  by (induction rs) (simp_all add: fetch_one_def)

lemma populate_one_array:
  assumes "s_models S = Some ms" and "s_model S = Some owner"
    and "fieldDef (modelSchema_fieldDefs owner) (path d) = FArray ds"
    and "find_model ms (model d) = Some m"
    and "js_get object (path d) = JArr ids"
  shows "populate_one S d (object, calls) =
     ((js_set object (path d)
         (JArr (map (\<lambda>r. findById m r True) (filter (\<lambda>r. r \<noteq> JUndefined) ids))),
       calls @ map (\<lambda>r. FindById (modelName m) r True) (filter (\<lambda>r. r \<noteq> JUndefined) ids)),
      None)"
  using assms by (cases ids) (simp_all add: populate_one_def asyncForEach_fetch)

lemma populate_one_empty:
  assumes "s_models S = Some ms" and "s_model S = Some owner"
    and "fieldDef (modelSchema_fieldDefs owner) (path d) = FArray ds"
    and "js_get object (path d) = JUndefined \<or> js_get object (path d) = JArr []"
  shows "populate_one S d (object, calls) = ((js_set object (path d) (JArr []), calls), None)"
  using assms by (auto simp: populate_one_def)

lemma populate_one_unresolved_array:
  assumes "s_models S = Some ms" and "s_model S = Some owner"
    and "find_model ms (model d) = None"
    and "fieldDef (modelSchema_fieldDefs owner) (path d) = FArray ds"
  shows "populate_one S d (object, calls) =
     (if truthy (js_get object (path d)) \<and> has_elements (js_get object (path d))
          \<and> (\<exists>r \<in> set (elements (js_get object (path d))). r \<noteq> JUndefined)
      then ((object, calls),
            Some (TypeError ''Cannot read properties of undefined (reading 'findById')''))
      else ((js_set object (path d) (JArr []), calls), None))"
  using assms by (auto simp: populate_one_def asyncForEach_no_target Let_def)

lemma populate_one_unresolved_single:
  assumes "s_models S = Some ms" and "s_model S = Some owner"
    and "find_model ms (model d) = None"
    and "\<forall>ds. fieldDef (modelSchema_fieldDefs owner) (path d) \<noteq> FArray ds"
  shows "populate_one S d (object, calls) =
     (if js_get object (path d) \<noteq> JUndefined
      then ((object, calls),
            Some (TypeError ''Cannot read properties of undefined (reading 'findById')''))
      else ((object, calls), None))"
  using assms by (cases "fieldDef (modelSchema_fieldDefs owner) (path d)")
    (simp_all add: populate_one_def)

lemma virtual_one_error:
  assumes "virtual_one S v st = (st', Some e)"
  shows "\<exists>text. e = TypeError text"
  using assms by (auto simp: virtual_one_def Let_def split: option.splits)

lemma virtuals_loop_unresolved:
  assumes "s_models S = Some ms"
    and "v \<in> set vs"
    and "find_model ms (ref (virtualDef v)) = None"
  shows "\<exists>st' text. virtuals_loop S vs st = (st', Some (TypeError text))"
  using assms(2)
proof (induction vs arbitrary: st)
  case Nil
  then show ?case by simp
next
  case (Cons a vs)
  obtain st1 r where one: "virtual_one S a st = (st1, r)"
    by (cases "virtual_one S a st")
  show ?case
  proof (cases r)
    case (Some e)
    with one virtual_one_error [of S a st st1 e] show ?thesis by auto
  next
    case None
    have "a \<noteq> v"
    proof
      assume "a = v"
      with assms(1,3) have "virtual_one S a st
          = (st, Some (TypeError ''Cannot read properties of undefined (reading 'find')''))"
        by (simp add: virtual_one_def)
      with one None show False by simp
    qed
    with Cons.prems have "v \<in> set vs" by auto
    from Cons.IH [OF this, of st1] one None show ?thesis by simp
  qed
qed

lemma populate_one_frame:
  assumes "populate_one S p st = (st', r)" and "path p \<noteq> k"
  shows "js_get (fst st') k = js_get (fst st) k"
  using assms
  by (auto simp: populate_one_def Let_def js_get_js_set
      split: option.splits fielddef.splits if_splits prod.splits)

lemma populate_one_error:
  assumes "populate_one S p st = (st', Some e)"
  shows "\<exists>msg. e = TypeError msg"
  using assms
  by (auto simp: populate_one_def Let_def asyncForEach_no_target asyncForEach_fetch
      split: option.splits fielddef.splits if_splits prod.splits)

lemma populates_loop_frame:
  assumes "populates_loop S ps st = (st', r)" and "k \<notin> path ` set ps"
  shows "js_get (fst st') k = js_get (fst st) k"
  using assms
proof (induction ps arbitrary: st)
  case Nil
  then show ?case by simp
next
  case (Cons a ps)
  obtain sta ra where one: "populate_one S a st = (sta, ra)"
    by (cases "populate_one S a st")
  have a: "js_get (fst sta) k = js_get (fst st) k"
    using populate_one_frame [OF one, of k] Cons.prems(2) by auto
  show ?case
  proof (cases ra)
    case (Some e)
    with one Cons.prems(1) a show ?thesis by simp
  next
    case None
    with one Cons.prems(1) have "populates_loop S ps sta = (st', r)" by simp
    from Cons.IH [OF this] Cons.prems(2) a show ?thesis by simp
  qed
qed

lemma populates_loop_step:
  assumes "distinct (map path ps)" and "d \<in> set ps"
    and "populates_loop S ps st = (st', None)"
  shows "\<exists>st1 st2. js_get (fst st1) (path d) = js_get (fst st) (path d)
           \<and> populate_one S d st1 = (st2, None)
           \<and> js_get (fst st') (path d) = js_get (fst st2) (path d)"
  using assms
proof (induction ps arbitrary: st)
  case Nil
  then show ?case by simp
next
  case (Cons a ps)
  obtain sta ra where one: "populate_one S a st = (sta, ra)"
    by (cases "populate_one S a st")
  with Cons.prems(3) have ra: "ra = None" and rest: "populates_loop S ps sta = (st', None)"
    by (cases ra; simp)+
  show ?case
  proof (cases "a = d")
    case True
    with Cons.prems(1) have "path d \<notin> path ` set ps" by auto
    from populates_loop_frame [OF rest this] one ra True show ?thesis by blast
  next
    case False
    with Cons.prems(1,2) have in_ps: "d \<in> set ps" and ne: "path a \<noteq> path d" by auto
    from Cons.prems(1) have dist: "distinct (map path ps)" by simp
    from Cons.IH [OF dist in_ps rest] populate_one_frame [OF one ne]
    show ?thesis by auto
  qed
qed

lemma populate_one_unresolved:
  assumes "s_models S = Some ms" and "s_model S = Some owner"
    and "find_model ms (model d) = None"
  shows "populate_one S d (object, calls) =
     (if fetches (fieldDef (modelSchema_fieldDefs owner) (path d)) (js_get object (path d))
      then ((object, calls),
            Some (TypeError ''Cannot read properties of undefined (reading 'findById')''))
      else ((case fieldDef (modelSchema_fieldDefs owner) (path d) of
               FArray ds \<Rightarrow> js_set object (path d) (JArr [])
             | _ \<Rightarrow> object, calls), None))"
proof (cases "\<exists>ds. fieldDef (modelSchema_fieldDefs owner) (path d) = FArray ds")
  case True
  then obtain ds where ds: "fieldDef (modelSchema_fieldDefs owner) (path d) = FArray ds" ..
  show ?thesis
    unfolding populate_one_unresolved_array [OF assms ds]
    by (simp add: fetches_def ds list_ex_iff)
next
  case False
  then have no: "\<forall>ds. fieldDef (modelSchema_fieldDefs owner) (path d) \<noteq> FArray ds" by simp
  show ?thesis
    unfolding populate_one_unresolved_single [OF assms no]
    using no by (cases "fieldDef (modelSchema_fieldDefs owner) (path d)") (simp_all add: fetches_def)
qed

lemma populates_loop_unresolved:
  assumes "s_models S = Some ms" and "s_model S = Some owner"
    and "find_model ms (model d) = None"
    and "distinct (map path ps)" and "d \<in> set ps"
    and "fetches (fieldDef (modelSchema_fieldDefs owner) (path d)) (js_get (fst st) (path d))"
  shows "\<exists>st' msg. populates_loop S ps st = (st', Some (TypeError msg))"
proof (cases "populates_loop S ps st")
  case (Pair st' r)
  show ?thesis
  proof (cases r)
    case None
    with Pair have "populates_loop S ps st = (st', None)" by simp
    from populates_loop_step [OF assms(4,5) this] obtain st1 st2
      where v: "js_get (fst st1) (path d) = js_get (fst st) (path d)"
        and one: "populate_one S d st1 = (st2, None)" by blast
    from populate_one_unresolved [OF assms(1-3), of "fst st1" "snd st1"] assms(6) v one
    show ?thesis by simp
  next
    case (Some e)
    have "\<exists>msg. e = TypeError msg"
      using Pair Some
    proof (induction ps arbitrary: st)
      case Nil
      then show ?case by simp
    next
      case (Cons a ps)
      obtain sta ra where one: "populate_one S a st = (sta, ra)"
        by (cases "populate_one S a st")
      show ?case
      proof (cases ra)
        case None
        with one Cons.prems have "populates_loop S ps sta = (st', r)" by simp
        from Cons.IH [OF this Cons.prems(2)] show ?thesis .
      next
        case (Some e')
        with one Cons.prems have "e' = e" by simp
        with populate_one_error [of S a st sta e'] one Some show ?thesis by simp
      qed
    qed
    with Pair Some show ?thesis by auto
  qed
qed

lemma populate_one_resolved:
  assumes "s_models S = Some ms" and "s_model S = Some owner"
    and "find_model ms (model p) \<noteq> None"
  shows "\<exists>st'. populate_one S p st = (st', None)"
  using assms
  by (cases st)
    (auto simp: populate_one_def Let_def asyncForEach_fetch split: fielddef.splits)

lemma populates_loop_resolved:
  assumes "s_models S = Some ms" and "s_model S = Some owner"
    and "\<forall>p \<in> set ps. find_model ms (model p) \<noteq> None"
  shows "\<exists>st'. populates_loop S ps st = (st', None)"
  using assms(3)
proof (induction ps arbitrary: st)
  case Nil
  show ?case by simp
next
  case (Cons a ps)
  from populate_one_resolved [OF assms(1,2), of a st] Cons.prems
  obtain sta where "populate_one S a st = (sta, None)" by auto
  moreover from Cons.IH [of sta] Cons.prems
  obtain st' where "populates_loop S ps sta = (st', None)" by auto
  ultimately show ?case by simp
qed

lemma doPopulates_single:
  "s_populates S = [d] \<Longrightarrow> schema_doPopulates S object = populate_one S d (object, [])"
  by (simp add: schema_doPopulates_def split: prod.splits option.splits)

text \<open>
  C8. For a populate descriptor whose field the owning model declares as an array: when
  the document holds an array of identities there and the target model is registered,
  the step of \<^verbatim>\<open>_doPopulates\<close> replaces the field by the documents that the target
  returns for the identities, in the order of the input and leaving out \<^verbatim>\<open>undefined\<close>
  elements, and it fetches them one after the other in that order; when the field is
  absent or the empty array, the step replaces it by the empty array and fetches
  nothing. In a registry of distinct paths whose targets all resolve, \<^verbatim>\<open>_doPopulates\<close>
  returns and the field holds those documents, or the empty array; with that descriptor
  as the only one registered, \<^verbatim>\<open>_doPopulates\<close> is this step.
\<close>

theorem populate_array_field:
  assumes "s_models S = Some ms" and "s_model S = Some owner"
    and "fieldDef (modelSchema_fieldDefs owner) (path d) = FArray ds"
  shows "(find_model ms (model d) = Some m \<and> js_get object (path d) = JArr ids \<longrightarrow>
        populate_one S d (object, calls) =
          ((js_set object (path d)
              (JArr (map (\<lambda>r. findById m r True) (filter (\<lambda>r. r \<noteq> JUndefined) ids))),
            calls @ map (\<lambda>r. FindById (modelName m) r True)
                      (filter (\<lambda>r. r \<noteq> JUndefined) ids)),
           None)
        \<and> (d \<in> set (s_populates S) \<and> distinct (map path (s_populates S))
             \<and> (\<forall>p \<in> set (s_populates S). find_model ms (model p) \<noteq> None) \<longrightarrow>
           (\<exists>object' calls'. schema_doPopulates S object = ((object', calls'), None)
              \<and> js_get object' (path d) =
                  JArr (map (\<lambda>r. findById m r True) (filter (\<lambda>r. r \<noteq> JUndefined) ids)))))
     \<and> (js_get object (path d) = JUndefined \<or> js_get object (path d) = JArr [] \<longrightarrow>
        populate_one S d (object, calls) = ((js_set object (path d) (JArr []), calls), None)
        \<and> (d \<in> set (s_populates S) \<and> distinct (map path (s_populates S))
             \<and> (\<forall>p \<in> set (s_populates S). find_model ms (model p) \<noteq> None) \<longrightarrow>
           (\<exists>object' calls'. schema_doPopulates S object = ((object', calls'), None)
              \<and> js_get object' (path d) = JArr [])))
     \<and> (s_populates S = [d] \<longrightarrow> schema_doPopulates S object = populate_one S d (object, []))"
proof -
  have whole: "\<exists>object' calls'. schema_doPopulates S object = ((object', calls'), None)
      \<and> js_get object' (path d) = v"
    if reg: "d \<in> set (s_populates S) \<and> distinct (map path (s_populates S))
             \<and> (\<forall>p \<in> set (s_populates S). find_model ms (model p) \<noteq> None)"
      and step: "\<And>st. js_get (fst st) (path d) = js_get object (path d) \<Longrightarrow>
             js_get (fst (fst (populate_one S d st))) (path d) = v"
    for v
  proof -
    from populates_loop_resolved [OF assms(1,2), of "s_populates S" "(object, [])"] reg
    obtain st' where run: "populates_loop S (s_populates S) (object, []) = (st', None)" by blast
    from populates_loop_step [OF _ _ run, of d] reg obtain st1 st2
      where v1: "js_get (fst st1) (path d) = js_get object (path d)"
        and one: "populate_one S d st1 = (st2, None)"
        and v2: "js_get (fst st') (path d) = js_get (fst st2) (path d)" by auto
    from step [OF v1] one v2 have "js_get (fst st') (path d) = v" by simp
    with run show ?thesis by (cases st') (simp add: schema_doPopulates_def)
  qed
  show ?thesis
  proof (intro conjI impI)
    assume a: "find_model ms (model d) = Some m \<and> js_get object (path d) = JArr ids"
    show "populate_one S d (object, calls) =
          ((js_set object (path d)
              (JArr (map (\<lambda>r. findById m r True) (filter (\<lambda>r. r \<noteq> JUndefined) ids))),
            calls @ map (\<lambda>r. FindById (modelName m) r True)
                      (filter (\<lambda>r. r \<noteq> JUndefined) ids)),
           None)"
      using populate_one_array [OF assms, of m object ids calls] a by simp
    assume reg: "d \<in> set (s_populates S) \<and> distinct (map path (s_populates S))
             \<and> (\<forall>p \<in> set (s_populates S). find_model ms (model p) \<noteq> None)"
    show "\<exists>object' calls'. schema_doPopulates S object = ((object', calls'), None)
              \<and> js_get object' (path d) =
                  JArr (map (\<lambda>r. findById m r True) (filter (\<lambda>r. r \<noteq> JUndefined) ids))"
    proof (rule whole [OF reg])
      fix st :: "jsobject \<times> call list"
      assume "js_get (fst st) (path d) = js_get object (path d)"
      with a have "js_get (fst st) (path d) = JArr ids" by simp
      from populate_one_array [OF assms _ this, of m "snd st"] a
      show "js_get (fst (fst (populate_one S d st))) (path d)
          = JArr (map (\<lambda>r. findById m r True) (filter (\<lambda>r. r \<noteq> JUndefined) ids))"
        by (simp add: js_get_js_set)
    qed
  next
    assume e: "js_get object (path d) = JUndefined \<or> js_get object (path d) = JArr []"
    show "populate_one S d (object, calls) = ((js_set object (path d) (JArr []), calls), None)"
      using e by (rule populate_one_empty [OF assms])
    assume reg: "d \<in> set (s_populates S) \<and> distinct (map path (s_populates S))
             \<and> (\<forall>p \<in> set (s_populates S). find_model ms (model p) \<noteq> None)"
    show "\<exists>object' calls'. schema_doPopulates S object = ((object', calls'), None)
              \<and> js_get object' (path d) = JArr []"
    proof (rule whole [OF reg])
      fix st :: "jsobject \<times> call list"
      assume "js_get (fst st) (path d) = js_get object (path d)"
      with e have "js_get (fst st) (path d) = JUndefined \<or> js_get (fst st) (path d) = JArr []"
        by simp
      from populate_one_empty [OF assms this, of "snd st"]
      show "js_get (fst (fst (populate_one S d st))) (path d) = JArr []"
        by (simp add: js_get_js_set)
    qed
  next
    assume "s_populates S = [d]"
    then show "schema_doPopulates S object = populate_one S d (object, [])"
      by (rule doPopulates_single)
  qed
qed

text \<open>Tags \<^verbatim>\<open>[a, undefined, c]\<close>, and a post without tags.\<close>

theorem populate_array_field_witness:
  "schema_doPopulates tagged_post [(''tags'', JArr [JStr ''a'', JUndefined, JStr ''c''])]
     = (([(''tags'', JArr [JObj [(''_id'', JStr ''a'')], JObj [(''_id'', JStr ''c'')]])],
         [FindById ''Tag'' (JStr ''a'') True, FindById ''Tag'' (JStr ''c'') True]), None)
   \<and> schema_doPopulates tagged_post [(''_id'', JStr ''p1'')]
     = (([(''_id'', JStr ''p1''), (''tags'', JArr [])], []), None)
   \<and> js_get (fst (fst (schema_doPopulates tagged_post
          [(''tags'', JArr [JStr ''a'', JUndefined, JStr ''c''])]))) ''tags''
     = JArr [JObj [(''_id'', JStr ''a'')], JObj [(''_id'', JStr ''c'')]]"
proof -
  let ?owner = "sample_model ''Post'' [(''tags'', FArray [FObject [''ref'']])]"
  let ?d = "\<lparr> path = ''tags'', model = ''Tag'' \<rparr>"
  let ?m = "sample_model ''Tag'' []"
  have ms: "s_models tagged_post = Some [?m]"
    and own: "s_model tagged_post = Some ?owner"
    and reg: "s_populates tagged_post = [?d]"
    by (simp_all add: tagged_post_def populate_def setModels_def sample_schema_def
        setModel_def Schema_def)
  have arr: "fieldDef (modelSchema_fieldDefs ?owner) (path ?d) = FArray [FObject [''ref'']]"
    by (simp add: sample_model_def fieldDef_def)
  have target: "find_model [?m] (model ?d) = Some ?m"
    by (simp add: find_model_def sample_model_def)
  have all: "?d \<in> set (s_populates tagged_post) \<and> distinct (map path (s_populates tagged_post))
      \<and> (\<forall>p \<in> set (s_populates tagged_post). find_model [?m] (model p) \<noteq> None)"
    using target by (simp add: reg)
  have v1: "js_get [(''tags'', JArr [JStr ''a'', JUndefined, JStr ''c''])] (path ?d)
      = JArr [JStr ''a'', JUndefined, JStr ''c'']"
    and v2: "js_get [(''_id'', JStr ''p1'')] (path ?d) = JUndefined"
    by (simp_all add: js_get_def)
  note abc = populate_array_field [OF ms own arr, where m = ?m
      and object = "[(''tags'', JArr [JStr ''a'', JUndefined, JStr ''c''])]"
      and ids = "[JStr ''a'', JUndefined, JStr ''c'']" and calls = "[]"]
  from abc target v1 reg
  have one: "schema_doPopulates tagged_post [(''tags'', JArr [JStr ''a'', JUndefined, JStr ''c''])]
     = (([(''tags'', JArr [JObj [(''_id'', JStr ''a'')], JObj [(''_id'', JStr ''c'')]])],
         [FindById ''Tag'' (JStr ''a'') True, FindById ''Tag'' (JStr ''c'') True]), None)"
    by (simp add: js_set_def sample_model_def)
  from populate_array_field [OF ms own arr, where m = ?m
      and object = "[(''_id'', JStr ''p1'')]" and ids = "[]" and calls = "[]"] v2 reg
  have two: "schema_doPopulates tagged_post [(''_id'', JStr ''p1'')]
     = (([(''_id'', JStr ''p1''), (''tags'', JArr [])], []), None)"
    by (simp add: js_set_def)
  from abc target v1 all
  obtain object' calls' where
    "schema_doPopulates tagged_post [(''tags'', JArr [JStr ''a'', JUndefined, JStr ''c''])]
       = ((object', calls'), None)"
    and "js_get object' (path ?d)
       = JArr (map (\<lambda>r. findById ?m r True)
                 (filter (\<lambda>r. r \<noteq> JUndefined) [JStr ''a'', JUndefined, JStr ''c'']))"
    by blast
  then have three: "js_get (fst (fst (schema_doPopulates tagged_post
          [(''tags'', JArr [JStr ''a'', JUndefined, JStr ''c''])]))) ''tags''
     = JArr [JObj [(''_id'', JStr ''a'')], JObj [(''_id'', JStr ''c'')]]"
    by (simp add: sample_model_def)
  from one two three show ?thesis by simp
qed

text \<open>
  C2, as amended. With the registry and the owning model attached, a target name that
  the registry does not resolve raises no error only where no fetch is attempted: the
  populate step of an array field replaces the field by the empty array when its value
  is falsy, has no elements or only \<^verbatim>\<open>undefined\<close> ones, and the step of a single
  reference leaves an \<^verbatim>\<open>undefined\<close> field alone. Where a fetch is attempted the step
  rejects with a \<^verbatim>\<open>TypeError\<close>, and so does \<^verbatim>\<open>_doPopulates\<close> for a registry of
  distinct paths; \<^verbatim>\<open>_doVirtuals\<close> rejects with a \<^verbatim>\<open>TypeError\<close> whenever a
  registered virtual descriptor names an unresolved target.
\<close>

theorem unresolved_target:
  assumes "s_models S = Some ms" and "s_model S = Some owner"
  shows "(v \<in> set (s_virtuals S) \<and> find_model ms (ref (virtualDef v)) = None \<longrightarrow>
        (\<exists>st msg. schema_doVirtuals S object = (st, Some (TypeError msg))))
     \<and> (find_model ms (model d) = None \<longrightarrow>
        populate_one S d (object, calls) =
          (if fetches (fieldDef (modelSchema_fieldDefs owner) (path d)) (js_get object (path d))
           then ((object, calls),
                 Some (TypeError ''Cannot read properties of undefined (reading 'findById')''))
           else ((case fieldDef (modelSchema_fieldDefs owner) (path d) of
                    FArray ds \<Rightarrow> js_set object (path d) (JArr [])
                  | _ \<Rightarrow> object, calls), None))
        \<and> (d \<in> set (s_populates S) \<and> distinct (map path (s_populates S))
             \<and> fetches (fieldDef (modelSchema_fieldDefs owner) (path d))
                  (js_get object (path d)) \<longrightarrow>
           (\<exists>st msg. schema_doPopulates S object = (st, Some (TypeError msg))))
        \<and> (s_populates S = [d] \<longrightarrow>
             schema_doPopulates S object = populate_one S d (object, [])))"
proof (intro conjI impI)
  assume "v \<in> set (s_virtuals S) \<and> find_model ms (ref (virtualDef v)) = None"
  then show "\<exists>st msg. schema_doVirtuals S object = (st, Some (TypeError msg))"
    using virtuals_loop_unresolved [OF assms(1), of v "s_virtuals S" "(object, [])"]
    by (simp add: schema_doVirtuals_def)
next
  assume none: "find_model ms (model d) = None"
  show "populate_one S d (object, calls) =
          (if fetches (fieldDef (modelSchema_fieldDefs owner) (path d)) (js_get object (path d))
           then ((object, calls),
                 Some (TypeError ''Cannot read properties of undefined (reading 'findById')''))
           else ((case fieldDef (modelSchema_fieldDefs owner) (path d) of
                    FArray ds \<Rightarrow> js_set object (path d) (JArr [])
                  | _ \<Rightarrow> object, calls), None))"
    by (rule populate_one_unresolved [OF assms none])
  assume "d \<in> set (s_populates S) \<and> distinct (map path (s_populates S))
             \<and> fetches (fieldDef (modelSchema_fieldDefs owner) (path d))
                  (js_get object (path d))"
  then show "\<exists>st msg. schema_doPopulates S object = (st, Some (TypeError msg))"
    using populates_loop_unresolved [OF assms none, of "s_populates S" "(object, [])"]
    by (simp add: schema_doPopulates_def)
next
  assume "s_populates S = [d]"
  then show "schema_doPopulates S object = populate_one S d (object, [])"
    by (rule doPopulates_single)
qed

text \<open>
  An owner to populate from, and comments to compute from, a model that the registry
  does not hold: both calls reject.
\<close>

theorem unresolved_target_counterexample:
  "find_model [] ''User'' = None
   \<and> schema_doPopulates owned_post [(''owner'', JStr ''u1'')]
     = (([(''owner'', JStr ''u1'')], []),
        Some (TypeError ''Cannot read properties of undefined (reading 'findById')''))
   \<and> find_model [] ''Comment'' = None
   \<and> schema_doVirtuals commented_post [(''_id'', JStr ''p1'')]
     = (([(''_id'', JStr ''p1'')], []),
        Some (TypeError ''Cannot read properties of undefined (reading 'find')''))"
  by (simp add: find_model_def schema_doPopulates_def schema_doVirtuals_def owned_post_def
      commented_post_def populate_def virtual_def setModels_def sample_schema_def setModel_def
      Schema_def populate_one_def virtual_one_def sample_model_def fieldDef_def js_get_def)

text \<open>The five cases on posts with an unresolved target.\<close>

theorem unresolved_target_witness:
  "schema_doVirtuals commented_post [(''_id'', JStr ''p1'')]
     = (([(''_id'', JStr ''p1'')], []),
        Some (TypeError ''Cannot read properties of undefined (reading 'find')''))
   \<and> schema_doPopulates owned_post [(''owner'', JStr ''u1'')]
     = (([(''owner'', JStr ''u1'')], []),
        Some (TypeError ''Cannot read properties of undefined (reading 'findById')''))
   \<and> schema_doPopulates owned_post [(''_id'', JStr ''p1'')]
     = (([(''_id'', JStr ''p1'')], []), None)
   \<and> populate_one tagged_post \<lparr> path = ''tags'', model = ''Label'' \<rparr>
        ([(''tags'', JArr [JUndefined])], [])
     = (([(''tags'', JArr [])], []), None)
   \<and> populate_one tagged_post \<lparr> path = ''tags'', model = ''Label'' \<rparr>
        ([(''tags'', JArr [JStr ''a''])], [])
     = (([(''tags'', JArr [JStr ''a''])], []),
        Some (TypeError ''Cannot read properties of undefined (reading 'findById')''))"
proof -
  let ?v = "\<lparr> fieldName = ''comments'',
             virtualDef = \<lparr> ref = ''Comment'', localField = ''_id'', foreignField = ''post'' \<rparr> \<rparr>"
  let ?d = "\<lparr> path = ''owner'', model = ''User'' \<rparr>"
  let ?l = "\<lparr> path = ''tags'', model = ''Label'' \<rparr>"
  let ?post = "sample_model ''Post'' [(''owner'', FObject [''ref''])]"
  let ?tagged = "sample_model ''Post'' [(''tags'', FArray [FObject [''ref'']])]"
  have cms: "s_models commented_post = Some []"
    and cown: "s_model commented_post = Some (sample_model ''Post'' [])"
    and cv: "?v \<in> set (s_virtuals commented_post) \<and> find_model [] (ref (virtualDef ?v)) = None"
    by (simp_all add: commented_post_def virtual_def setModels_def sample_schema_def
        setModel_def Schema_def find_model_def)
  from unresolved_target [OF cms cown, where v = ?v and d = ?d
      and object = "[(''_id'', JStr ''p1'')]" and calls = "[]"] cv
  obtain st msg where raised:
    "schema_doVirtuals commented_post [(''_id'', JStr ''p1'')] = (st, Some (TypeError msg))"
    by blast
  have virt: "schema_doVirtuals commented_post [(''_id'', JStr ''p1'')]
     = (([(''_id'', JStr ''p1'')], []),
        Some (TypeError ''Cannot read properties of undefined (reading 'find')''))"
    using raised
    by (simp add: find_model_def schema_doVirtuals_def commented_post_def virtual_def
        setModels_def sample_schema_def setModel_def Schema_def virtual_one_def)
  have oms: "s_models owned_post = Some []"
    and oown: "s_model owned_post = Some ?post"
    and oreg: "s_populates owned_post = [?d]"
    by (simp_all add: owned_post_def populate_def setModels_def sample_schema_def
        setModel_def Schema_def)
  have none: "find_model [] (model ?d) = None" by (simp add: find_model_def)
  have f1: "fetches (fieldDef (modelSchema_fieldDefs ?post) (path ?d))
        (js_get [(''owner'', JStr ''u1'')] (path ?d))"
    and f2: "\<not> fetches (fieldDef (modelSchema_fieldDefs ?post) (path ?d))
        (js_get [(''_id'', JStr ''p1'')] (path ?d))"
    and single: "fieldDef (modelSchema_fieldDefs ?post) (path ?d) = FObject [''ref'']"
    by (simp_all add: sample_model_def fieldDef_def fetches_def js_get_def)
  note owner = unresolved_target [OF oms oown, where v = ?v and d = ?d
      and object = "[(''owner'', JStr ''u1'')]" and calls = "[]"]
  from owner none f1 oreg
  have pop1: "schema_doPopulates owned_post [(''owner'', JStr ''u1'')]
     = (([(''owner'', JStr ''u1'')], []),
        Some (TypeError ''Cannot read properties of undefined (reading 'findById')''))"
    by simp
  have "?d \<in> set (s_populates owned_post) \<and> distinct (map path (s_populates owned_post))
      \<and> fetches (fieldDef (modelSchema_fieldDefs ?post) (path ?d))
           (js_get [(''owner'', JStr ''u1'')] (path ?d))"
    using f1 by (simp add: oreg)
  with owner none obtain st' msg' where
    "schema_doPopulates owned_post [(''owner'', JStr ''u1'')] = (st', Some (TypeError msg'))"
    by blast
  from unresolved_target [OF oms oown, where v = ?v and d = ?d
      and object = "[(''_id'', JStr ''p1'')]" and calls = "[]"] none f2 oreg single
  have pop2: "schema_doPopulates owned_post [(''_id'', JStr ''p1'')]
     = (([(''_id'', JStr ''p1'')], []), None)"
    by simp
  have tms: "s_models tagged_post = Some [sample_model ''Tag'' []]"
    and town: "s_model tagged_post = Some ?tagged"
    by (simp_all add: tagged_post_def populate_def setModels_def sample_schema_def
        setModel_def Schema_def)
  have tnone: "find_model [sample_model ''Tag'' []] (model ?l) = None"
    by (simp add: find_model_def sample_model_def)
  from unresolved_target [OF tms town, where v = ?v and d = ?l
      and object = "[(''tags'', JArr [JUndefined])]" and calls = "[]"] tnone
  have arr1: "populate_one tagged_post ?l ([(''tags'', JArr [JUndefined])], [])
     = (([(''tags'', JArr [])], []), None)"
    by (simp add: sample_model_def fieldDef_def fetches_def js_get_def js_set_def)
  from unresolved_target [OF tms town, where v = ?v and d = ?l
      and object = "[(''tags'', JArr [JStr ''a''])]" and calls = "[]"] tnone
  have arr2: "populate_one tagged_post ?l ([(''tags'', JArr [JStr ''a''])], [])
     = (([(''tags'', JArr [JStr ''a''])], []),
        Some (TypeError ''Cannot read properties of undefined (reading 'findById')''))"
    by (simp add: sample_model_def fieldDef_def fetches_def js_get_def js_set_def)
  from virt pop1 pop2 arr1 arr2 show ?thesis by simp
qed

end
